theory Spec2Isabelle
  imports Complex_Main "HOL-Library.Multiset"
begin

section \<open>Data model: the tables of backend/server.js\<close>

text \<open>
  The three phases of the CHECK constraint on \<open>contests.current_phase\<close>.
\<close>

datatype phase = Submission | Voting | Results

text \<open>
  Instants (\<open>new Date(...)\<close> of a valid date string, \<open>CURRENT_TIMESTAMP\<close>) are integers:
  milliseconds on one common time line. Row ids are natural numbers.
\<close>

record contest =
  c_id :: nat
  slug :: string
  c_name :: string
  description :: string
  admin_pin_hash :: string
  submission_deadline :: int
  voting_deadline :: int
  current_phase :: phase
  c_created_at :: int

record entry =
  e_id :: nat
  e_contest_id :: nat
  e_name :: string
  image_filename :: string
  e_created_at :: int

text \<open>
  A row of \<open>votes\<close>; the columns \<open>id\<close> and \<open>created_at\<close> are read by no query of the
  server and are left out. The column \<open>entry_id\<close> holds an integer and the column
  \<open>rank\<close> a number from 1 to 3, which the CHECK does not require to be whole.
\<close>

record vote =
  v_contest_id :: nat
  voter_id :: string
  entry_id :: int
  v_rank :: rat

text \<open>
  The database: the rows of each table in insertion (rowid) order, and the
  AUTOINCREMENT counter of \<open>entries\<close>.
\<close>

record db =
  contests :: "contest list"
  entries :: "entry list"
  votes :: "vote list"
  entry_seq :: nat

datatype error =
    NotFound
  | PhaseClosed
  | InvalidVoteData
  | TooManySelections
  | InvalidRank
  | DuplicateRank
  | DuplicateEntry
  | UnknownEntry
  | MissingFields
  | DuplicateName
  | Unauthorized
  | InvalidDeadlineOrder
  | InternalError

section \<open>Phase resolver\<close>

text \<open>
  The order submission < voting < results in which the phases are meant to be passed.
\<close>

fun phase_rank :: "phase \<Rightarrow> nat" where
  "phase_rank Submission = 0"
| "phase_rank Voting = 1"
| "phase_rank Results = 2"

definition phase_le :: "phase \<Rightarrow> phase \<Rightarrow> bool" where
  "phase_le p q = (phase_rank p \<le> phase_rank q)"

text \<open>
  \<open>newPhase\<close> is the local variable of \<open>updateContestPhase\<close> after its two \<open>if\<close>
  statements; both test the phase that was read, not the one just computed.
\<close>

definition newPhase :: "int \<Rightarrow> contest \<Rightarrow> phase" where
  "newPhase now contest =
     (let p1 = (if current_phase contest = Submission \<and> now \<ge> submission_deadline contest
                then Voting else current_phase contest)
      in if (current_phase contest = Submission \<or> current_phase contest = Voting)
            \<and> now \<ge> voting_deadline contest
         then Results else p1)"

text \<open>\<open>UPDATE contests SET current_phase = ? WHERE id = ?\<close>\<close>

definition setPhase :: "nat \<Rightarrow> phase \<Rightarrow> db \<Rightarrow> db" where
  "setPhase i p d =
     d\<lparr>contests := map (\<lambda>c. if c_id c = i then c\<lparr>current_phase := p\<rparr> else c) (contests d)\<rparr>"

definition updateContestPhase :: "int \<Rightarrow> contest \<Rightarrow> db \<Rightarrow> contest \<times> db" where
  "updateContestPhase now contest d =
     (if newPhase now contest \<noteq> current_phase contest
      then (contest\<lparr>current_phase := newPhase now contest\<rparr>,
            setPhase (c_id contest) (newPhase now contest) d)
      else (contest, d))"

text \<open>\<open>SELECT * FROM contests WHERE slug = ?\<close> (\<open>.get\<close>: the first row, if any)\<close>

definition findContest :: "string \<Rightarrow> db \<Rightarrow> contest option" where
  "findContest s d = find (\<lambda>c. slug c = s) (contests d)"

definition getContestWithPhase :: "int \<Rightarrow> string \<Rightarrow> db \<Rightarrow> contest option \<times> db" where
  "getContestWithPhase now s d =
     (case findContest s d of
        None \<Rightarrow> (None, d)
      | Some contest \<Rightarrow>
          (Some (fst (updateContestPhase now contest d)),
           snd (updateContestPhase now contest d)))"

text \<open>
  A sequence of reads of one contest at the instants \<open>nows\<close>, each persisting what it
  resolved.
\<close>

definition resolveAt :: "string \<Rightarrow> int \<Rightarrow> db \<Rightarrow> db" where
  "resolveAt s now d = snd (getContestWithPhase now s d)"

definition resolveAll :: "string \<Rightarrow> int list \<Rightarrow> db \<Rightarrow> db" where
  "resolveAll s nows d = fold (resolveAt s) nows d"

definition storedPhase :: "string \<Rightarrow> db \<Rightarrow> phase option" where
  "storedPhase s d = map_option current_phase (findContest s d)"

section \<open>Reading a contest\<close>

text \<open>
  What the handlers send of a contest row: \<open>delete contest.admin_pin_hash\<close>, and
  \<open>entry_count\<close> where the handler adds it.
\<close>

record contest_info =
  i_id :: nat
  i_slug :: string
  i_name :: string
  i_description :: string
  i_submission_deadline :: int
  i_voting_deadline :: int
  i_current_phase :: phase
  i_created_at :: int
  entry_count :: "nat option"

definition withoutPinHash :: "contest \<Rightarrow> nat option \<Rightarrow> contest_info" where
  "withoutPinHash contest n =
     \<lparr>i_id = c_id contest, i_slug = slug contest, i_name = c_name contest,
      i_description = description contest,
      i_submission_deadline = submission_deadline contest,
      i_voting_deadline = voting_deadline contest,
      i_current_phase = current_phase contest,
      i_created_at = c_created_at contest, entry_count = n\<rparr>"

text \<open>\<open>GET /api/contests/:slug\<close>\<close>

definition getContest :: "int \<Rightarrow> string \<Rightarrow> db \<Rightarrow> (error + contest_info) \<times> db" where
  "getContest now s d =
     (case getContestWithPhase now s d of
        (None, d') \<Rightarrow> (Inl NotFound, d')
      | (Some contest, d') \<Rightarrow>
          (Inr (withoutPinHash contest
                  (Some (length (filter (\<lambda>e. e_contest_id e = c_id contest) (entries d'))))),
           d'))"

section \<open>Listing entries\<close>

record vote_breakdown =
  first :: nat
  second :: nat
  third :: nat

text \<open>
  An entry as it is sent: every field of the row that the handler keeps, and the two
  fields the results branch adds. A field that is absent from the object is \<open>None\<close>.
\<close>

record out_entry =
  o_id :: nat
  o_contest_id :: nat
  o_name :: "string option"
  o_image_filename :: string
  o_created_at :: int
  score :: "nat option"
  voteBreakdown :: "vote_breakdown option"

record payload =
  p_entries :: "out_entry list"
  entryCount :: "nat option"
  p_phase :: phase

text \<open>
  \<open>SELECT * FROM entries WHERE contest_id = ? ORDER BY created_at ASC\<close>; rows with the
  same timestamp stay in rowid order.
\<close>

definition selectEntries :: "nat \<Rightarrow> db \<Rightarrow> entry list" where
  "selectEntries cid d = sort_key e_created_at (filter (\<lambda>e. e_contest_id e = cid) (entries d))"

text \<open>The destructuring \<open>({ sortKey, name, ...rest }) => rest\<close>\<close>

definition withoutName :: "entry \<Rightarrow> out_entry" where
  "withoutName e =
     \<lparr>o_id = e_id e, o_contest_id = e_contest_id e, o_name = None,
      o_image_filename = image_filename e, o_created_at = e_created_at e,
      score = None, voteBreakdown = None\<rparr>"

text \<open>
  What an entry row holds besides the submitter name, and the same four fields of an
  entry as it is sent.
\<close>

definition entryData :: "entry \<Rightarrow> nat \<times> nat \<times> string \<times> int" where
  "entryData e = (e_id e, e_contest_id e, image_filename e, e_created_at e)"

definition sentData :: "out_entry \<Rightarrow> nat \<times> nat \<times> string \<times> int" where
  "sentData x = (o_id x, o_contest_id x, o_image_filename x, o_created_at x)"

text \<open>
  The voting branch. \<open>rnd i\<close> is the value of the \<open>i\<close>-th call of \<open>Math.random()\<close> in
  this request; \<open>Array.prototype.sort\<close> is stable, as \<open>sort_key\<close> is.
\<close>

definition shuffled :: "(nat \<Rightarrow> 'k::linorder) \<Rightarrow> entry list \<Rightarrow> out_entry list" where
  "shuffled rnd es =
     map (\<lambda>(e, sortKey). withoutName e)
       (sort_key snd (zip es (map rnd [0..<length es])))"

text \<open>
  \<open>SELECT rank, COUNT(*) as count FROM votes WHERE entry_id = ? GROUP BY rank\<close>:
  one row for each rank that occurs, with the number of its votes.
\<close>

definition rankCounts :: "nat \<Rightarrow> db \<Rightarrow> (rat \<times> nat) list" where
  "rankCounts eid d =
     (let rs = map v_rank (filter (\<lambda>v. entry_id v = int eid) (votes d))
      in map (\<lambda>r. (r, count_list rs r)) (sort (remdups rs)))"

text \<open>
  The body of \<open>votes.forEach\<close> on the pair (score, voteBreakdown): three \<open>if\<close>
  statements in sequence.
\<close>

definition tallyRow :: "rat \<times> nat \<Rightarrow> nat \<times> vote_breakdown \<Rightarrow> nat \<times> vote_breakdown" where
  "tallyRow v acc =
     (let a1 = (if fst v = 1 then (fst acc + 3, (snd acc)\<lparr>first := snd v\<rparr>) else acc);
          a2 = (if fst v = 2 then (fst a1 + 2, (snd a1)\<lparr>second := snd v\<rparr>) else a1)
      in if fst v = 3 then (fst a2 + 1, (snd a2)\<lparr>third := snd v\<rparr>) else a2)"

text \<open>What one row of the grouped query adds to the score, by its rank.\<close>

definition rankPoints :: "rat \<Rightarrow> nat" where
  "rankPoints r = (if r = 1 then 3 else if r = 2 then 2 else if r = 3 then 1 else 0)"

definition entryTally :: "db \<Rightarrow> entry \<Rightarrow> nat \<times> vote_breakdown" where
  "entryTally d e =
     fold tallyRow (rankCounts (e_id e) d) (0, \<lparr>first = 0, second = 0, third = 0\<rparr>)"

definition withVotes :: "db \<Rightarrow> entry \<Rightarrow> out_entry" where
  "withVotes d e =
     \<lparr>o_id = e_id e, o_contest_id = e_contest_id e, o_name = Some (e_name e),
      o_image_filename = image_filename e, o_created_at = e_created_at e,
      score = Some (fst (entryTally d e)), voteBreakdown = Some (snd (entryTally d e))\<rparr>"

text \<open>
  \<open>entriesWithVotes.sort((a, b) => b.score - a.score)\<close>: stable, by descending score.
\<close>

definition sortByScore :: "db \<Rightarrow> entry list \<Rightarrow> entry list" where
  "sortByScore d es = sort_key (\<lambda>e. - int (fst (entryTally d e))) es"

definition tally :: "db \<Rightarrow> entry list \<Rightarrow> out_entry list" where
  "tally d es = map (withVotes d) (sortByScore d es)"

text \<open>
  \<open>GET /api/contests/:slug/entries\<close>. The fallback after the three branches is not
  reached: \<open>current_phase\<close> is one of the three phases.
\<close>

definition listEntries ::
  "int \<Rightarrow> (nat \<Rightarrow> 'k::linorder) \<Rightarrow> string \<Rightarrow> db \<Rightarrow> (error + payload) \<times> db" where
  "listEntries now rnd s d =
     (case getContestWithPhase now s d of
        (None, d') \<Rightarrow> (Inl NotFound, d')
      | (Some contest, d') \<Rightarrow>
          (case current_phase contest of
             Submission \<Rightarrow>
               (Inr \<lparr>p_entries = [],
                     entryCount = Some (length (selectEntries (c_id contest) d')),
                     p_phase = Submission\<rparr>, d')
           | Voting \<Rightarrow>
               (Inr \<lparr>p_entries = shuffled rnd (selectEntries (c_id contest) d'),
                     entryCount = None, p_phase = Voting\<rparr>, d')
           | Results \<Rightarrow>
               (Inr \<lparr>p_entries = tally d' (selectEntries (c_id contest) d'),
                     entryCount = None, p_phase = Results\<rparr>, d')))"

text \<open>
  The score the scoring rule asks for: 3 points for each vote of rank 1, 2 for each of
  rank 2, 1 for each of rank 3, over all the votes cast for the entry.
\<close>

definition spec_score :: "nat \<Rightarrow> db \<Rightarrow> nat" where
  "spec_score eid d =
     (let rs = map v_rank (filter (\<lambda>v. entry_id v = int eid) (votes d))
      in 3 * count_list rs 1 + 2 * count_list rs 2 + 1 * count_list rs 3)"

section \<open>Submitting an entry\<close>

text \<open>
  SQL \<open>LOWER\<close> folds the ASCII letters only. \<open>trim\<close> is \<open>String.prototype.trim\<close> on the
  ASCII white space (tab, line feed, vertical tab, form feed, carriage return, space).
\<close>

definition lowerChar :: "char \<Rightarrow> char" where
  "lowerChar c =
     (if 65 \<le> (of_char c :: nat) \<and> (of_char c :: nat) \<le> 90
      then char_of ((of_char c :: nat) + 32) else c)"

definition LOWER :: "string \<Rightarrow> string" where
  "LOWER x = map lowerChar x"

definition isSpace :: "char \<Rightarrow> bool" where
  "isSpace c = ((of_char c :: nat) = 32 \<or> (9 \<le> (of_char c :: nat) \<and> (of_char c :: nat) \<le> 13))"

definition trim :: "string \<Rightarrow> string" where
  "trim x = rev (dropWhile isSpace (rev (dropWhile isSpace x)))"

text \<open>
  \<open>POST /api/contests/:slug/entries\<close>. \<open>name\<close> is \<open>req.body.name\<close> and \<open>file\<close> the stored
  name of the uploaded image, each \<open>None\<close> when the request has none. The insert raises
  on \<open>UNIQUE(contest_id, name)\<close>, which the handler answers with status 500.
\<close>

definition createEntry ::
  "int \<Rightarrow> string \<Rightarrow> string option \<Rightarrow> string option \<Rightarrow> db \<Rightarrow> (error + entry) \<times> db" where
  "createEntry now s name file d =
     (case getContestWithPhase now s d of
        (None, d') \<Rightarrow> (Inl NotFound, d')
      | (Some contest, d') \<Rightarrow>
          if current_phase contest \<noteq> Submission then (Inl PhaseClosed, d')
          else (case name of
             None \<Rightarrow> (Inl MissingFields, d')
           | Some n \<Rightarrow>
              (case file of
                 None \<Rightarrow> (Inl MissingFields, d')
               | Some f \<Rightarrow>
                  if n = [] then (Inl MissingFields, d')
                  else if find (\<lambda>e. e_contest_id e = c_id contest \<and> LOWER (e_name e) = LOWER n)
                            (entries d') \<noteq> None
                  then (Inl DuplicateName, d')
                  else if find (\<lambda>e. e_contest_id e = c_id contest \<and> e_name e = trim n)
                            (entries d') \<noteq> None
                  then (Inl InternalError, d')
                  else (Inr \<lparr>e_id = entry_seq d' + 1, e_contest_id = c_id contest,
                              e_name = trim n, image_filename = f, e_created_at = now\<rparr>,
                        d'\<lparr>entries := entries d' @
                              [\<lparr>e_id = entry_seq d' + 1, e_contest_id = c_id contest,
                                e_name = trim n, image_filename = f, e_created_at = now\<rparr>],
                            entry_seq := entry_seq d' + 1\<rparr>))))"

section \<open>Votes\<close>

text \<open>
  The numbers of the language: the finite ones are rationals here, and the handler
  compares them with \<open><\<close> and \<open>>\<close> (\<open>a > b\<close> is \<open>lessThan b a\<close>); a comparison with
  \<open>NaN\<close> is false.
\<close>

datatype number = NaN | NegInfinity | Finite rat | PosInfinity

fun lessThan :: "number \<Rightarrow> number \<Rightarrow> bool" where
  "lessThan (Finite a) (Finite b) = (a < b)"
| "lessThan NaN y = False"
| "lessThan x NaN = False"
| "lessThan NegInfinity NegInfinity = False"
| "lessThan NegInfinity y = True"
| "lessThan x NegInfinity = False"
| "lessThan PosInfinity y = False"
| "lessThan x PosInfinity = True"

text \<open>
  A field of an element of \<open>req.body.votes\<close> as \<open>express.json()\<close> leaves it: absent
  (\<open>undefined\<close>), \<open>null\<close>, a boolean, a number or a string. Arrays and objects as
  values of the two fields are not modelled.
\<close>

datatype jsval = JUndefined | JNull | JBool bool | JNum number | JStr string

record json_vote =
  j_entryId :: jsval
  j_rank :: jsval

text \<open>
  What the handler takes from the language and from the database driver without
  defining it: the number that a comparison makes of a string, the number that the
  column affinity of SQLite makes of a text (\<open>None\<close>: the text stays a text), and
  whether the driver binds \<open>undefined\<close> as NULL or raises. These are parameters.
\<close>

record platform =
  stringToNumber :: "string \<Rightarrow> number"
  textToNumeric :: "string \<Rightarrow> rat option"
  undefinedBindsNull :: bool

text \<open>The operand of \<open>vote.rank < 1\<close> and \<open>vote.rank > 3\<close>, as a number.\<close>

fun toNumber :: "platform \<Rightarrow> jsval \<Rightarrow> number" where
  "toNumber p JUndefined = NaN"
| "toNumber p JNull = Finite 0"
| "toNumber p (JBool b) = Finite (if b then 1 else 0)"
| "toNumber p (JNum n) = n"
| "toNumber p (JStr s) = stringToNumber p s"

text \<open>
  The value that the driver binds to a \<open>?\<close> of a statement; \<open>None\<close> when it raises a
  TypeError, as it does for a boolean.
\<close>

datatype sqlval = SqlNull | SqlNumber number | SqlText string

fun bindValue :: "platform \<Rightarrow> jsval \<Rightarrow> sqlval option" where
  "bindValue p JUndefined = (if undefinedBindsNull p then Some SqlNull else None)"
| "bindValue p JNull = Some SqlNull"
| "bindValue p (JBool b) = None"
| "bindValue p (JNum n) = Some (if n = NaN then SqlNull else SqlNumber n)"
| "bindValue p (JStr s) = Some (SqlText s)"

text \<open>
  The finite number that a bound value is in a comparison with an INTEGER column, or
  once stored in one: a text that looks like a number is that number. \<open>None\<close> for
  NULL, for a text that is no number and for the infinities: these equal no id, and as
  a rank they fail \<open>NOT NULL\<close> or the CHECK.
\<close>

fun numericValue :: "platform \<Rightarrow> sqlval \<Rightarrow> rat option" where
  "numericValue p SqlNull = None"
| "numericValue p (SqlNumber (Finite r)) = Some r"
| "numericValue p (SqlNumber n) = None"
| "numericValue p (SqlText s) = textToNumeric p s"

text \<open>
  The validation loop. \<open>ranks\<close> and \<open>entryIds\<close> are the two sets of the handler, holding
  what the votes before this one added; \<open>Set.prototype.has\<close> compares a number with a
  number by value and never equates a number and a string. The statement that looks
  the entry up raises when the driver cannot bind \<open>vote.entryId\<close>; the handler's
  \<open>catch\<close> answers that with status 500.
\<close>

fun validateVotesRaw ::
  "platform \<Rightarrow> nat \<Rightarrow> db \<Rightarrow> jsval list \<Rightarrow> jsval list \<Rightarrow> json_vote list \<Rightarrow> error option"
where
  "validateVotesRaw p cid d ranks entryIds [] = None"
| "validateVotesRaw p cid d ranks entryIds (v # rest) =
     (if lessThan (toNumber p (j_rank v)) (Finite 1) \<or> lessThan (Finite 3) (toNumber p (j_rank v))
      then Some InvalidRank
      else if j_rank v \<in> set ranks then Some DuplicateRank
      else if j_entryId v \<in> set entryIds then Some DuplicateEntry
      else (case bindValue p (j_entryId v) of
              None \<Rightarrow> Some InternalError
            | Some x \<Rightarrow>
               (case numericValue p x of
                  None \<Rightarrow> Some UnknownEntry
                | Some r \<Rightarrow>
                    if find (\<lambda>e. of_nat (e_id e) = r \<and> e_contest_id e = cid) (entries d) = None
                    then Some UnknownEntry
                    else validateVotesRaw p cid d (j_rank v # ranks) (j_entryId v # entryIds)
                           rest)))"

text \<open>\<open>DELETE FROM votes WHERE contest_id = ? AND voter_id = ?\<close>\<close>

definition deleteVotes :: "nat \<Rightarrow> string \<Rightarrow> vote list \<Rightarrow> vote list" where
  "deleteVotes cid voterId vs =
     filter (\<lambda>v. \<not> (v_contest_id v = cid \<and> voter_id v = voterId)) vs"

text \<open>
  The row that \<open>insertVote.run(contest.id, voterId, vote.entryId, vote.rank)\<close> offers to
  the table. \<open>None\<close> when the driver cannot bind a value, when a value is NULL
  (\<open>NOT NULL\<close>) and when the rank is a text that is no number (it fails the CHECK): the
  statement raises. An entry id that is no integer gives \<open>None\<close> too; none reaches the
  insert loop, since the validation loop found an entry for every id of the ballot.
\<close>

definition storedRow :: "platform \<Rightarrow> nat \<Rightarrow> string \<Rightarrow> json_vote \<Rightarrow> vote option" where
  "storedRow p cid voterId v =
     (case bindValue p (j_entryId v) of
        None \<Rightarrow> None
      | Some x \<Rightarrow>
         (case bindValue p (j_rank v) of
            None \<Rightarrow> None
          | Some y \<Rightarrow>
             (case numericValue p x of
                None \<Rightarrow> None
              | Some e \<Rightarrow>
                 (case numericValue p y of
                    None \<Rightarrow> None
                  | Some r \<Rightarrow>
                      if of_int \<lfloor>e\<rfloor> = e
                      then Some \<lparr>v_contest_id = cid, voter_id = voterId,
                                 entry_id = \<lfloor>e\<rfloor>, v_rank = r\<rparr>
                      else None))))"

text \<open>
  The constraints of the table \<open>votes\<close> that a row can violate:
  \<open>CHECK(rank >= 1 AND rank <= 3)\<close>, \<open>UNIQUE(contest_id, voter_id, rank)\<close> and
  \<open>UNIQUE(contest_id, voter_id, entry_id)\<close>. The two foreign keys hold for every row
  that the insert loop offers: the contest has been read, and the validation loop has
  found the entry.
\<close>

definition violatesVoteConstraints :: "vote \<Rightarrow> vote list \<Rightarrow> bool" where
  "violatesVoteConstraints r vs =
     (v_rank r < 1 \<or> v_rank r > 3
      \<or> find (\<lambda>x. v_contest_id x = v_contest_id r \<and> voter_id x = voter_id r
                    \<and> v_rank x = v_rank r) vs \<noteq> None
      \<or> find (\<lambda>x. v_contest_id x = v_contest_id r \<and> voter_id x = voter_id r
                    \<and> entry_id x = entry_id r) vs \<noteq> None)"

text \<open>
  The insert loop: one row for each vote, in the order of the ballot. An insert that
  raises ends the loop; the rows inserted before it stay (the handler opens no
  transaction) and the handler answers with status 500.
\<close>

fun insertVotesRaw ::
  "platform \<Rightarrow> nat \<Rightarrow> string \<Rightarrow> json_vote list \<Rightarrow> vote list \<Rightarrow> error option \<times> vote list"
where
  "insertVotesRaw p cid voterId [] vs = (None, vs)"
| "insertVotesRaw p cid voterId (v # rest) vs =
     (case storedRow p cid voterId v of
        None \<Rightarrow> (Some InternalError, vs)
      | Some row \<Rightarrow>
          if violatesVoteConstraints row vs then (Some InternalError, vs)
          else insertVotesRaw p cid voterId rest (vs @ [row]))"

text \<open>
  \<open>POST /api/contests/:slug/votes\<close>, for a body whose \<open>voterId\<close> is a string and whose
  \<open>votes\<close> is an array of objects.
\<close>

definition castVoteRaw ::
  "platform \<Rightarrow> int \<Rightarrow> string \<Rightarrow> string \<Rightarrow> json_vote list \<Rightarrow> db \<Rightarrow> (error + unit) \<times> db"
where
  "castVoteRaw p now s voterId b d =
     (case getContestWithPhase now s d of
        (None, d') \<Rightarrow> (Inl NotFound, d')
      | (Some contest, d') \<Rightarrow>
          if current_phase contest \<noteq> Voting then (Inl PhaseClosed, d')
          else if voterId = [] then (Inl InvalidVoteData, d')
          else if length b > 3 then (Inl TooManySelections, d')
          else (case validateVotesRaw p (c_id contest) d' [] [] b of
             Some e \<Rightarrow> (Inl e, d')
           | None \<Rightarrow>
               (case insertVotesRaw p (c_id contest) voterId b
                       (deleteVotes (c_id contest) voterId (votes d')) of
                  (Some e, vs) \<Rightarrow> (Inl e, d'\<lparr>votes := vs\<rparr>)
                | (None, vs) \<Rightarrow> (Inr (), d'\<lparr>votes := vs\<rparr>))))"

subsection \<open>Votes whose entry id is an integer and whose rank is a number\<close>

text \<open>
  A vote like \<open>{ entryId: 1, rank: 1 }\<close>, which is also the shape of a row of the
  answer of the ballot query. On such votes nothing is converted and no value fails to
  bind, so the handler is the following one, without the platform; the lemma
  \<open>castVoteRaw_numeric\<close> below proves it.
\<close>

record ballot_vote =
  entryId :: int
  rank :: rat

definition rawVote :: "ballot_vote \<Rightarrow> json_vote" where
  "rawVote v = \<lparr>j_entryId = JNum (Finite (of_int (entryId v))), j_rank = JNum (Finite (rank v))\<rparr>"

fun validateVotes ::
  "nat \<Rightarrow> db \<Rightarrow> rat list \<Rightarrow> int list \<Rightarrow> ballot_vote list \<Rightarrow> error option" where
  "validateVotes cid d ranks entryIds [] = None"
| "validateVotes cid d ranks entryIds (v # rest) =
     (if rank v < 1 \<or> rank v > 3 then Some InvalidRank
      else if rank v \<in> set ranks then Some DuplicateRank
      else if entryId v \<in> set entryIds then Some DuplicateEntry
      else if find (\<lambda>e. int (e_id e) = entryId v \<and> e_contest_id e = cid) (entries d) = None
      then Some UnknownEntry
      else validateVotes cid d (rank v # ranks) (entryId v # entryIds) rest)"

definition voteRow :: "nat \<Rightarrow> string \<Rightarrow> ballot_vote \<Rightarrow> vote" where
  "voteRow cid voterId v =
     \<lparr>v_contest_id = cid, voter_id = voterId, entry_id = entryId v, v_rank = rank v\<rparr>"

fun insertVotes ::
  "nat \<Rightarrow> string \<Rightarrow> ballot_vote list \<Rightarrow> vote list \<Rightarrow> error option \<times> vote list" where
  "insertVotes cid voterId [] vs = (None, vs)"
| "insertVotes cid voterId (v # rest) vs =
     (if violatesVoteConstraints (voteRow cid voterId v) vs then (Some InternalError, vs)
      else insertVotes cid voterId rest (vs @ [voteRow cid voterId v]))"

definition castVote ::
  "int \<Rightarrow> string \<Rightarrow> string \<Rightarrow> ballot_vote list \<Rightarrow> db \<Rightarrow> (error + unit) \<times> db" where
  "castVote now s voterId b d =
     (case getContestWithPhase now s d of
        (None, d') \<Rightarrow> (Inl NotFound, d')
      | (Some contest, d') \<Rightarrow>
          if current_phase contest \<noteq> Voting then (Inl PhaseClosed, d')
          else if voterId = [] then (Inl InvalidVoteData, d')
          else if length b > 3 then (Inl TooManySelections, d')
          else (case validateVotes (c_id contest) d' [] [] b of
             Some e \<Rightarrow> (Inl e, d')
           | None \<Rightarrow>
               (case insertVotes (c_id contest) voterId b
                       (deleteVotes (c_id contest) voterId (votes d')) of
                  (Some e, vs) \<Rightarrow> (Inl e, d'\<lparr>votes := vs\<rparr>)
                | (None, vs) \<Rightarrow> (Inr (), d'\<lparr>votes := vs\<rparr>))))"

subsection \<open>Reading a ballot\<close>

text \<open>
  \<open>SELECT entry_id as entryId, rank FROM votes WHERE contest_id = ? AND voter_id = ?\<close>.
  The query has no \<open>ORDER BY\<close>; SQLite answers it from the index of
  \<open>UNIQUE(contest_id, voter_id, entry_id)\<close>, so the rows come in the order of their
  entry ids and not in the order of the ballot.
\<close>

definition selectBallot :: "nat \<Rightarrow> string \<Rightarrow> db \<Rightarrow> ballot_vote list" where
  "selectBallot cid voterId d =
     map (\<lambda>v. \<lparr>entryId = entry_id v, rank = v_rank v\<rparr>)
       (sort_key entry_id
          (filter (\<lambda>v. v_contest_id v = cid \<and> voter_id v = voterId) (votes d)))"

text \<open>\<open>GET /api/contests/:slug/votes/:voterId\<close>\<close>

definition getVoterBallot ::
  "int \<Rightarrow> string \<Rightarrow> string \<Rightarrow> db \<Rightarrow> (error + ballot_vote list) \<times> db" where
  "getVoterBallot now s voterId d =
     (case getContestWithPhase now s d of
        (None, d') \<Rightarrow> (Inl NotFound, d')
      | (Some contest, d') \<Rightarrow> (Inr (selectBallot (c_id contest) voterId d'), d'))"

subsection \<open>The defects of a ballot\<close>

text \<open>
  The defects that the validator is meant to find, besides more than 3 votes: a rank
  that is none of 1, 2, 3, and an entry that is not one of the contest (a rank twice
  and an entry twice are \<open>\<not> distinct\<close> of the ranks and of the entry ids).
  \<open>outOfRange\<close> is what the handler tests instead of the first.
\<close>

definition inContest :: "nat \<Rightarrow> db \<Rightarrow> int \<Rightarrow> bool" where
  "inContest cid d eid =
     (eid \<in> (\<lambda>e. int (e_id e)) ` set (filter (\<lambda>e. e_contest_id e = cid) (entries d)))"

definition badRank :: "ballot_vote list \<Rightarrow> bool" where
  "badRank b = (filter (\<lambda>v. rank v \<noteq> 1 \<and> rank v \<noteq> 2 \<and> rank v \<noteq> 3) b \<noteq> [])"

definition outOfRange :: "ballot_vote list \<Rightarrow> bool" where
  "outOfRange b = (filter (\<lambda>v. rank v < 1 \<or> rank v > 3) b \<noteq> [])"

definition unknownEntry :: "nat \<Rightarrow> db \<Rightarrow> ballot_vote list \<Rightarrow> bool" where
  "unknownEntry cid d b = (filter (\<lambda>v. \<not> inContest cid d (entryId v)) b \<noteq> [])"

text \<open>
  An example of a platform for the closed examples below, none of which holds a
  string: no string is a number in it.
\<close>

definition example_platform :: platform where
  "example_platform =
     \<lparr>stringToNumber = (\<lambda>s. NaN), textToNumeric = (\<lambda>s. None), undefinedBindsNull = True\<rparr>"

section \<open>Admin operations\<close>

text \<open>
  \<open>hashPin\<close> (SHA-256 of the PIN, in hexadecimal) is a parameter of each admin handler.
\<close>

definition phaseOfString :: "string \<Rightarrow> phase option" where
  "phaseOfString x =
     (if x = ''submission'' then Some Submission
      else if x = ''voting'' then Some Voting
      else if x = ''results'' then Some Results
      else None)"

text \<open>
  \<open>UPDATE contests SET submission_deadline = ?, voting_deadline = ? WHERE id = ?\<close>
\<close>

definition setDeadlines :: "nat \<Rightarrow> int \<Rightarrow> int \<Rightarrow> db \<Rightarrow> db" where
  "setDeadlines i sd vd d =
     d\<lparr>contests :=
         map (\<lambda>c. if c_id c = i then c\<lparr>submission_deadline := sd, voting_deadline := vd\<rparr> else c)
           (contests d)\<rparr>"

text \<open>
  \<open>PUT /api/contests/:slug/admin\<close>. A deadline of the body that is absent or the empty
  string is \<open>None\<close>, as is an absent or empty \<open>currentPhase\<close>; the contest row is read
  with a plain \<open>SELECT\<close>.
\<close>

definition adminUpdate ::
  "(string \<Rightarrow> string) \<Rightarrow> string \<Rightarrow> string \<Rightarrow> int option \<Rightarrow> int option \<Rightarrow> string option \<Rightarrow> db
     \<Rightarrow> (error + contest_info) \<times> db" where
  "adminUpdate hashPin s pin submissionDeadline votingDeadline currentPhase d =
     (case findContest s d of
        None \<Rightarrow> (Inl NotFound, d)
      | Some contest \<Rightarrow>
          if hashPin pin \<noteq> admin_pin_hash contest then (Inl Unauthorized, d)
          else (case
                  (case submissionDeadline of
                     None \<Rightarrow> Inr d
                   | Some sd \<Rightarrow>
                      (case votingDeadline of
                         None \<Rightarrow> Inr d
                       | Some vd \<Rightarrow>
                           if sd \<ge> vd then Inl InvalidDeadlineOrder
                           else Inr (setDeadlines (c_id contest) sd vd d)))
                of
                  Inl e \<Rightarrow> (Inl e, d)
                | Inr d1 \<Rightarrow>
                   (case (case currentPhase of
                            None \<Rightarrow> d1
                          | Some x \<Rightarrow>
                             (case phaseOfString x of
                                None \<Rightarrow> d1
                              | Some p \<Rightarrow> setPhase (c_id contest) p d1))
                    of d2 \<Rightarrow>
                      (case find (\<lambda>c. c_id c = c_id contest) (contests d2) of
                         None \<Rightarrow> (Inl InternalError, d2)
                       | Some updated \<Rightarrow> (Inr (withoutPinHash updated None), d2)))))"

text \<open>\<open>POST /api/contests/:slug/admin/entries\<close>\<close>

definition adminEntries ::
  "(string \<Rightarrow> string) \<Rightarrow> string \<Rightarrow> string \<Rightarrow> db \<Rightarrow> (error + entry list) \<times> db" where
  "adminEntries hashPin s pin d =
     (case findContest s d of
        None \<Rightarrow> (Inl NotFound, d)
      | Some contest \<Rightarrow>
          if hashPin pin \<noteq> admin_pin_hash contest then (Inl Unauthorized, d)
          else (Inr (selectEntries (c_id contest) d), d))"

text \<open>
  \<open>DELETE /api/contests/:slug/admin/entries/:entryId\<close>; the image file that it unlinks
  is not part of the database.
\<close>

definition adminDeleteEntry ::
  "(string \<Rightarrow> string) \<Rightarrow> string \<Rightarrow> string \<Rightarrow> nat \<Rightarrow> db \<Rightarrow> (error + unit) \<times> db" where
  "adminDeleteEntry hashPin s pin eid d =
     (case findContest s d of
        None \<Rightarrow> (Inl NotFound, d)
      | Some contest \<Rightarrow>
          if hashPin pin \<noteq> admin_pin_hash contest then (Inl Unauthorized, d)
          else (case find (\<lambda>e. e_id e = eid \<and> e_contest_id e = c_id contest) (entries d) of
             None \<Rightarrow> (Inl NotFound, d)
           | Some e \<Rightarrow>
               (Inr (),
                d\<lparr>votes := filter (\<lambda>v. entry_id v \<noteq> int (e_id e)) (votes d),
                  entries := filter (\<lambda>x. e_id x \<noteq> e_id e) (entries d)\<rparr>)))"

text \<open>\<open>POST /api/contests/:slug/admin/verify\<close>\<close>

definition adminVerify ::
  "(string \<Rightarrow> string) \<Rightarrow> string \<Rightarrow> string \<Rightarrow> db \<Rightarrow> (error + unit) \<times> db" where
  "adminVerify hashPin s pin d =
     (case findContest s d of
        None \<Rightarrow> (Inl NotFound, d)
      | Some contest \<Rightarrow>
          if pin = [] then (Inl MissingFields, d)
          else if hashPin pin \<noteq> admin_pin_hash contest then (Inl Unauthorized, d)
          else (Inr (), d))"

section \<open>Resolution before use\<close>

text \<open>
  An operation on the contest \<open>s\<close> resolves the phase first when running it at the
  instant \<open>now\<close> gives the same answer and the same database as running it after a read
  of the contest that resolved and stored the phase at \<open>now\<close>, and the phase it leaves
  in the database is the one resolved at \<open>now\<close>.
\<close>

definition resolves_first :: "string \<Rightarrow> int \<Rightarrow> (db \<Rightarrow> 'r \<times> db) \<Rightarrow> db \<Rightarrow> bool" where
  "resolves_first s now operation d =
     (operation d = operation (resolveAt s now d)
      \<and> storedPhase s (snd (operation d)) = map_option (newPhase now) (findContest s d))"

section \<open>Example databases\<close>

text \<open>
  One contest with three entries and no votes yet; its stored phase is still
  \<open>submission\<close>, its deadlines are the instants 10 and 20.
\<close>

definition bake_off :: contest where
  "bake_off =
     \<lparr>c_id = 1, slug = ''bake-off'', c_name = ''Bake Off'', description = ''cakes'',
      admin_pin_hash = ''1234'', submission_deadline = 10, voting_deadline = 20,
      current_phase = Submission, c_created_at = 0\<rparr>"

definition entryA :: entry where
  "entryA = \<lparr>e_id = 1, e_contest_id = 1, e_name = ''Ann'', image_filename = ''a.png'',
             e_created_at = 1\<rparr>"

definition entryB :: entry where
  "entryB = \<lparr>e_id = 2, e_contest_id = 1, e_name = ''Bob'', image_filename = ''b.png'',
             e_created_at = 2\<rparr>"

definition entryC :: entry where
  "entryC = \<lparr>e_id = 3, e_contest_id = 1, e_name = ''Cy'', image_filename = ''c.png'',
             e_created_at = 3\<rparr>"

definition bake_db :: db where
  "bake_db = \<lparr>contests = [bake_off], entries = [entryA, entryB, entryC], votes = [],
              entry_seq = 3\<rparr>"

text \<open>The same database with other submitter names.\<close>

definition bake_db_renamed :: db where
  "bake_db_renamed =
     \<lparr>contests = [bake_off],
      entries = [entryA\<lparr>e_name := ''Xi''\<rparr>, entryB\<lparr>e_name := ''Yu''\<rparr>,
                 entryC\<lparr>e_name := ''Zoe''\<rparr>],
      votes = [], entry_seq = 3\<rparr>"

text \<open>
  Three ballots on the entries 1 and 2: voter \<open>v1\<close> ranks entry 1 first and entry 2
  second, \<open>v2\<close> ranks entry 1 first, \<open>v3\<close> ranks entry 2 first.
\<close>

definition tally_db :: db where
  "tally_db =
     \<lparr>contests = [bake_off\<lparr>current_phase := Results\<rparr>],
      entries = [entryA, entryB],
      votes = [\<lparr>v_contest_id = 1, voter_id = ''v1'', entry_id = 1, v_rank = 1\<rparr>,
               \<lparr>v_contest_id = 1, voter_id = ''v1'', entry_id = 2, v_rank = 2\<rparr>,
               \<lparr>v_contest_id = 1, voter_id = ''v2'', entry_id = 1, v_rank = 1\<rparr>,
               \<lparr>v_contest_id = 1, voter_id = ''v3'', entry_id = 2, v_rank = 1\<rparr>],
      entry_seq = 2\<rparr>"

section \<open>Facts about the phase resolver\<close>

lemmas example_defs =
  bake_off_def entryA_def entryB_def entryC_def bake_db_def bake_db_renamed_def tally_db_def

lemma newPhase_mono: "phase_le (current_phase c) (newPhase now c)"
  by (cases "current_phase c") (simp_all add: newPhase_def phase_le_def Let_def)

lemma newPhase_idem: "newPhase now (c\<lparr>current_phase := newPhase now c\<rparr>) = newPhase now c"
  by (cases "current_phase c") (simp_all add: newPhase_def Let_def)

lemma find_setPhase:
  "find (\<lambda>c. slug c = s) cs = Some c \<Longrightarrow>
   find (\<lambda>c. slug c = s) (map (\<lambda>x. if c_id x = c_id c then x\<lparr>current_phase := p\<rparr> else x) cs)
     = Some (c\<lparr>current_phase := p\<rparr>)"
  by (induction cs) (auto split: if_splits)

lemma findContest_setPhase:
  "findContest s d = Some c \<Longrightarrow>
   findContest s (setPhase (c_id c) p d) = Some (c\<lparr>current_phase := p\<rparr>)"
  by (simp add: findContest_def setPhase_def find_setPhase)

lemma entries_setPhase: "entries (setPhase i p d) = entries d"
  by (simp add: setPhase_def)

lemma votes_setPhase: "votes (setPhase i p d) = votes d"
  by (simp add: setPhase_def)

lemma getContestWithPhase_None:
  "findContest s d = None \<Longrightarrow> getContestWithPhase now s d = (None, d)"
  by (simp add: getContestWithPhase_def)

lemma getContestWithPhase_Some:
  "findContest s d = Some c \<Longrightarrow>
   getContestWithPhase now s d =
     (Some (c\<lparr>current_phase := newPhase now c\<rparr>),
      if newPhase now c = current_phase c then d else setPhase (c_id c) (newPhase now c) d)"
  by (simp add: getContestWithPhase_def updateContestPhase_def)

lemma entries_resolved: "entries (snd (getContestWithPhase now s d)) = entries d"
  by (cases "findContest s d")
     (simp_all add: getContestWithPhase_None getContestWithPhase_Some entries_setPhase)

lemma votes_resolved: "votes (snd (getContestWithPhase now s d)) = votes d"
  by (cases "findContest s d")
     (simp_all add: getContestWithPhase_None getContestWithPhase_Some votes_setPhase)

lemma findContest_resolveAt:
  "findContest s d = Some c \<Longrightarrow>
   findContest s (resolveAt s now d) = Some (c\<lparr>current_phase := newPhase now c\<rparr>)"
  by (simp add: resolveAt_def getContestWithPhase_Some findContest_setPhase)

lemma findContest_resolveAt_None:
  "findContest s d = None \<Longrightarrow> findContest s (resolveAt s now d) = None"
  by (simp add: resolveAt_def getContestWithPhase_None)

text \<open>A second read at the same instant finds nothing left to resolve.\<close>

lemma getContestWithPhase_resolveAt:
  "getContestWithPhase now s (resolveAt s now d) = getContestWithPhase now s d"
proof (cases "findContest s d")
  case None
  then show ?thesis
    by (simp add: resolveAt_def getContestWithPhase_None)
next
  case (Some c)
  have "getContestWithPhase now s (resolveAt s now d) =
          (Some (c\<lparr>current_phase := newPhase now c\<rparr>), resolveAt s now d)"
    using getContestWithPhase_Some [OF findContest_resolveAt [OF Some], of now now]
    by (simp add: newPhase_idem)
  moreover have "getContestWithPhase now s d =
          (Some (c\<lparr>current_phase := newPhase now c\<rparr>), resolveAt s now d)"
    using getContestWithPhase_Some [OF Some, of now] by (simp add: resolveAt_def)
  ultimately show ?thesis by simp
qed

lemma resolveAll_mono:
  "findContest s d = Some c \<Longrightarrow>
   \<exists>c'. findContest s (resolveAll s nows d) = Some c'
      \<and> phase_le (current_phase c) (current_phase c')"
proof (induction nows arbitrary: d c)
  case Nil
  then show ?case by (simp add: resolveAll_def phase_le_def)
next
  case (Cons n ns)
  have step: "findContest s (resolveAt s n d) = Some (c\<lparr>current_phase := newPhase n c\<rparr>)"
    using Cons.prems by (rule findContest_resolveAt)
  from Cons.IH [OF step] obtain c' where
    c': "findContest s (resolveAll s ns (resolveAt s n d)) = Some c'"
    and le: "phase_le (newPhase n c) (current_phase c')"
    by auto
  have "phase_le (current_phase c) (current_phase c')"
    using newPhase_mono [of c n] le by (simp add: phase_le_def)
  with c' show ?case by (simp add: resolveAll_def)
qed

section \<open>Claims about the phase resolver\<close>

text \<open>
  C5. Automatic resolution is monotonic in the order submission < voting < results:
  a read at any instant returns and stores a phase that is not earlier than the stored
  one, and after any sequence of reads of the contest (in particular one at
  non-decreasing instants) the stored phase is not earlier than it was at the start.
\<close>

theorem resolvePhase_monotonic:
  assumes "findContest s d = Some c"
  shows "phase_le (current_phase c) (current_phase (fst (updateContestPhase now c d)))
       \<and> storedPhase s (resolveAt s now d) = Some (newPhase now c)
       \<and> phase_le (current_phase c) (newPhase now c)
       \<and> (\<exists>c'. findContest s (resolveAll s nows d) = Some c'
              \<and> phase_le (current_phase c) (current_phase c'))"
proof -
  have "phase_le (current_phase c) (current_phase (fst (updateContestPhase now c d)))"
    using newPhase_mono [of c now] by (simp add: updateContestPhase_def phase_le_def)
  moreover have "storedPhase s (resolveAt s now d) = Some (newPhase now c)"
    by (simp add: storedPhase_def findContest_resolveAt [OF assms])
  ultimately show ?thesis
    using newPhase_mono [of c now] resolveAll_mono [OF assms, of nows] by simp
qed

theorem resolvePhase_monotonic_witness:
  "findContest ''bake-off'' bake_db = Some bake_off
   \<and> storedPhase ''bake-off'' (resolveAt ''bake-off'' 15 bake_db) = Some Voting
   \<and> storedPhase ''bake-off'' (resolveAll ''bake-off'' [5, 15, 15, 25, 30] bake_db) = Some Results
   \<and> phase_le (current_phase bake_off) (newPhase 15 bake_off)"
proof -
  have h: "findContest ''bake-off'' bake_db = Some bake_off"
    by (simp add: findContest_def example_defs)
  have r: "storedPhase ''bake-off'' (resolveAll ''bake-off'' [5, 15, 15, 25, 30] bake_db)
             = Some Results"
    by (simp add: storedPhase_def resolveAll_def resolveAt_def getContestWithPhase_def
        updateContestPhase_def newPhase_def setPhase_def findContest_def example_defs)
  have n: "newPhase 15 bake_off = Voting"
    by (simp add: newPhase_def example_defs)
  show ?thesis
    using h r n resolvePhase_monotonic [OF h, of 15 "[5, 15, 15, 25, 30]"] by simp
qed

text \<open>
  C6. A contest whose stored phase is submission, read at an instant at or past both
  deadlines, is set to results by that one read: the read returns the contest in phase
  results and stores results; the contest is not left in voting.
\<close>

theorem both_deadlines_passed_jumps_to_results:
  assumes "findContest s d = Some c"
    and "current_phase c = Submission"
    and "submission_deadline c \<le> now"
    and "voting_deadline c \<le> now"
  shows "newPhase now c = Results
       \<and> getContestWithPhase now s d =
           (Some (c\<lparr>current_phase := Results\<rparr>), setPhase (c_id c) Results d)
       \<and> storedPhase s (resolveAt s now d) = Some Results"
proof -
  have n: "newPhase now c = Results"
    using assms by (simp add: newPhase_def)
  then show ?thesis
    using assms getContestWithPhase_Some [OF assms(1), of now]
      findContest_resolveAt [OF assms(1), of now]
    by (simp add: storedPhase_def)
qed

theorem both_deadlines_passed_jumps_to_results_witness:
  "findContest ''bake-off'' bake_db = Some bake_off
   \<and> current_phase bake_off = Submission
   \<and> submission_deadline bake_off \<le> 20 \<and> voting_deadline bake_off \<le> 20
   \<and> newPhase 20 bake_off = Results
   \<and> storedPhase ''bake-off'' (resolveAt ''bake-off'' 20 bake_db) = Some Results"
proof -
  have h: "findContest ''bake-off'' bake_db = Some bake_off"
    by (simp add: findContest_def example_defs)
  have p: "current_phase bake_off = Submission"
    and s: "submission_deadline bake_off \<le> 20" and v: "voting_deadline bake_off \<le> 20"
    by (simp_all add: example_defs)
  show ?thesis
    using h p s v both_deadlines_passed_jumps_to_results [OF h p s v] by simp
qed

section \<open>Facts about the entry listing\<close>

lemma selectEntries_resolved:
  "selectEntries cid (snd (getContestWithPhase now s d)) = selectEntries cid d"
  by (simp add: selectEntries_def entries_resolved)

lemma length_selectEntries:
  "length (selectEntries cid d) = length (filter (\<lambda>e. e_contest_id e = cid) (entries d))"
  by (simp add: selectEntries_def)

lemma mset_selectEntries:
  "mset (selectEntries cid d) = mset (filter (\<lambda>e. e_contest_id e = cid) (entries d))"
  by (simp add: selectEntries_def)

lemma listEntries_Submission:
  assumes "findContest s d = Some c" and "newPhase now c = Submission"
  shows "fst (listEntries now rnd s d) =
           Inr \<lparr>p_entries = [], entryCount = Some (length (selectEntries (c_id c) d)),
                 p_phase = Submission\<rparr>"
proof -
  have "selectEntries (c_id c) (snd (getContestWithPhase now s d)) = selectEntries (c_id c) d"
    by (rule selectEntries_resolved)
  then show ?thesis
    using assms getContestWithPhase_Some [OF assms(1), of now]
    by (simp add: listEntries_def split: if_splits)
qed

lemma listEntries_Voting:
  assumes "findContest s d = Some c" and "newPhase now c = Voting"
  shows "fst (listEntries now rnd s d) =
           Inr \<lparr>p_entries = shuffled rnd (selectEntries (c_id c) d), entryCount = None,
                 p_phase = Voting\<rparr>"
proof -
  have "selectEntries (c_id c) (snd (getContestWithPhase now s d)) = selectEntries (c_id c) d"
    by (rule selectEntries_resolved)
  then show ?thesis
    using assms getContestWithPhase_Some [OF assms(1), of now]
    by (simp add: listEntries_def split: if_splits)
qed

lemma insort_key_map:
  "insort_key f (g x) (map g xs) = map g (insort_key (\<lambda>y. f (g y)) x xs)"
  by (induction xs) simp_all

lemma sort_key_map: "sort_key f (map g xs) = map g (sort_key (\<lambda>y. f (g y)) xs)"
  by (induction xs) (simp_all add: insort_key_map)

text \<open>What is listed during voting is computed from the rows without their names.\<close>

lemma withoutName_selectEntries:
  "map withoutName (selectEntries cid d) =
     sort_key o_created_at (filter (\<lambda>x. o_contest_id x = cid) (map withoutName (entries d)))"
  by (simp add: selectEntries_def sort_key_map filter_map comp_def withoutName_def)

lemma shuffled_alt:
  "shuffled rnd es =
     map fst (sort_key snd (zip (map withoutName es) (map rnd [0..<length es])))"
proof -
  have "zip (map withoutName es) (map rnd [0..<length es]) =
        map (\<lambda>p. (withoutName (fst p), snd p)) (zip es (map rnd [0..<length es]))"
    by (simp add: zip_map1 case_prod_beta)
  then show ?thesis
    by (simp add: shuffled_def sort_key_map comp_def case_prod_beta)
qed

lemma shuffled_cong:
  assumes "map withoutName es = map withoutName es'"
  shows "shuffled rnd es = shuffled rnd es'"
proof -
  have "length (map withoutName es) = length (map withoutName es')"
    by (simp only: assms)
  then have "length es = length es'" by simp
  then show ?thesis
    by (simp only: shuffled_alt assms)
qed

lemma mset_shuffled: "mset (shuffled rnd es) = mset (map withoutName es)"
proof -
  let ?zs = "zip es (map rnd [0..<length es])"
  have a: "map fst ?zs = es"
    by (simp add: map_fst_zip)
  have "map withoutName (map fst ?zs) = map withoutName es"
    by (simp only: a)
  then have b: "map (\<lambda>p. withoutName (fst p)) ?zs = map withoutName es"
    by (simp only: map_map comp_def)
  have "mset (map (\<lambda>p. withoutName (fst p)) (sort_key snd ?zs)) =
        mset (map (\<lambda>p. withoutName (fst p)) ?zs)"
    by simp
  then have "mset (map (\<lambda>p. withoutName (fst p)) (sort_key snd ?zs)) = mset (map withoutName es)"
    by (simp only: b)
  then show ?thesis
    unfolding shuffled_def split_def .
qed

lemma sentData_withoutName: "map sentData (map withoutName es) = map entryData es"
  by (simp add: sentData_def entryData_def withoutName_def)

lemma withoutName_entryData:
  assumes "map entryData es' = map entryData es"
  shows "map withoutName es' = map withoutName es"
proof -
  have "withoutName e =
          \<lparr>o_id = fst (entryData e), o_contest_id = fst (snd (entryData e)), o_name = None,
           o_image_filename = fst (snd (snd (entryData e))),
           o_created_at = snd (snd (snd (entryData e))), score = None, voteBreakdown = None\<rparr>"
    for e by (simp add: withoutName_def entryData_def)
  then have "map withoutName xs =
          map (\<lambda>t. \<lparr>o_id = fst t, o_contest_id = fst (snd t), o_name = None,
                     o_image_filename = fst (snd (snd t)), o_created_at = snd (snd (snd t)),
                     score = None, voteBreakdown = None\<rparr>) (map entryData xs)"
    for xs by (simp add: comp_def)
  then show ?thesis by (simp only: assms)
qed

lemma o_name_shuffled: "map o_name (shuffled rnd es) = replicate (length es) None"
  by (simp add: shuffled_def case_prod_beta comp_def withoutName_def map_replicate_const)

lemma fst_tallyRow: "fst (tallyRow (r, n) acc) = fst acc + rankPoints r"
  by (simp add: tallyRow_def rankPoints_def Let_def)

lemma fst_fold_tallyRow:
  "fst (fold tallyRow (map (\<lambda>r. (r, f r)) rs) acc) = fst acc + sum_list (map rankPoints rs)"
  by (induction rs arbitrary: acc) (simp_all add: fst_tallyRow)

lemma sum_rankPoints:
  assumes "finite S"
  shows "(\<Sum>r\<in>S. rankPoints r) =
           (if 1 \<in> S then 3 else 0) + (if 2 \<in> S then 2 else 0) + (if 3 \<in> S then 1 else 0)"
proof -
  have "rankPoints r = (if r = 1 then 3 else 0) + (if r = 2 then 2 else 0) + (if r = 3 then 1 else 0)"
    for r by (simp add: rankPoints_def)
  then have "(\<Sum>r\<in>S. rankPoints r) =
      (\<Sum>r\<in>S. (if r = 1 then 3 else 0) + (if r = 2 then 2 else 0) + (if r = 3 then 1 else 0))"
    by simp
  also have "\<dots> = (if 1 \<in> S then 3 else 0) + (if 2 \<in> S then 2 else 0) + (if 3 \<in> S then 1 else 0)"
    using assms by (simp add: sum.distrib sum.delta)
  finally show ?thesis .
qed

text \<open>
  The score that the results branch computes: the points of a rank are added once if
  the entry has any vote of that rank, so no score exceeds 6.
\<close>

lemma entryTally_score:
  "fst (entryTally d e) =
     (if 1 \<in> v_rank ` set (filter (\<lambda>v. entry_id v = int (e_id e)) (votes d)) then 3 else 0)
   + (if 2 \<in> v_rank ` set (filter (\<lambda>v. entry_id v = int (e_id e)) (votes d)) then 2 else 0)
   + (if 3 \<in> v_rank ` set (filter (\<lambda>v. entry_id v = int (e_id e)) (votes d)) then 1 else 0)"
proof -
  let ?rs = "map v_rank (filter (\<lambda>v. entry_id v = int (e_id e)) (votes d))"
  have "fst (entryTally d e) = sum_list (map rankPoints (sort (remdups ?rs)))"
    by (simp add: entryTally_def rankCounts_def Let_def fst_fold_tallyRow)
  also have "\<dots> = (\<Sum>r\<in>set (sort (remdups ?rs)). rankPoints r)"
    by (rule sum_list_distinct_conv_sum_set) simp
  also have "\<dots> = (\<Sum>r\<in>set ?rs. rankPoints r)"
    by simp
  finally show ?thesis
    by (simp add: sum_rankPoints)
qed

lemma entryTally_le_6: "fst (entryTally d e) \<le> 6"
  by (simp add: entryTally_score)

text \<open>The results are in the order of non-increasing computed score, all entries included.\<close>

lemma tally_sorted:
  "sorted (rev (map (\<lambda>e. fst (entryTally d e)) (sortByScore d es)))"
proof -
  have "sorted (map (\<lambda>e. - int (fst (entryTally d e))) (sortByScore d es))"
    unfolding sortByScore_def by (rule sorted_sort_key)
  then show ?thesis
    by (simp add: sorted_wrt_map sorted_wrt_rev)
qed

lemma tally_all_entries: "mset (sortByScore d es) = mset es"
  by (simp add: sortByScore_def)

section \<open>Claims about the entry listing\<close>

text \<open>
  C7. For a contest that the read resolves to the submission phase, the non-admin
  listing is exactly: an empty entry list, the number of entries of the contest, and
  the phase. No entry record, hence no name and no image reference, is in the payload,
  however many entries there are.
\<close>

theorem listEntries_submission_hides_entries:
  assumes "findContest s d = Some c" and "newPhase now c = Submission"
  shows "fst (listEntries now rnd s d) =
           Inr \<lparr>p_entries = [],
                 entryCount = Some (length (filter (\<lambda>e. e_contest_id e = c_id c) (entries d))),
                 p_phase = Submission\<rparr>"
  using listEntries_Submission [OF assms] by (simp add: length_selectEntries)

theorem listEntries_submission_hides_entries_witness:
  "findContest ''bake-off'' bake_db = Some bake_off \<and> newPhase 5 bake_off = Submission
   \<and> fst (listEntries 5 (id :: nat \<Rightarrow> nat) ''bake-off'' bake_db) =
       Inr \<lparr>p_entries = [], entryCount = Some 3, p_phase = Submission\<rparr>"
proof -
  have h: "findContest ''bake-off'' bake_db = Some bake_off"
    by (simp add: findContest_def example_defs)
  have n: "newPhase 5 bake_off = Submission"
    by (simp add: newPhase_def example_defs)
  show ?thesis
    using h n listEntries_submission_hides_entries [OF h n, of "id :: nat \<Rightarrow> nat"]
    by (simp add: example_defs)
qed

text \<open>
  C8. For a contest that the read resolves to the voting phase, the non-admin listing
  is a permutation of all the entries of the contest, whatever the random sort keys
  are: the records sent carry exactly the ids, contest ids, image references and
  timestamps of the entries of the contest, each as often as it occurs, and none of
  them has a name, a score or a vote breakdown. For the same random sort keys, a
  database whose entries differ from this one's in the submitter names only gives the
  same payload, so the payloads that can be sent are the same.
\<close>

theorem listEntries_voting_anonymous_permutation:
  assumes "findContest s d = Some c" and "newPhase now c = Voting"
  shows "(\<exists>es. fst (listEntries now rnd s d) =
                 Inr \<lparr>p_entries = es, entryCount = None, p_phase = Voting\<rparr>
              \<and> mset (map sentData es) =
                  mset (map entryData (filter (\<lambda>e. e_contest_id e = c_id c) (entries d)))
              \<and> map o_name es = replicate (length es) None
              \<and> map score es = replicate (length es) None
              \<and> map voteBreakdown es = replicate (length es) None
              \<and> mset es = mset (map withoutName
                                  (filter (\<lambda>e. e_contest_id e = c_id c) (entries d))))
       \<and> (findContest s d' = Some c' \<and> c_id c' = c_id c \<and> newPhase now c' = Voting
            \<and> map entryData (entries d') = map entryData (entries d)
          \<longrightarrow> fst (listEntries now rnd s d') = fst (listEntries now rnd s d))"
proof -
  let ?es = "shuffled rnd (selectEntries (c_id c) d)"
  let ?rows = "filter (\<lambda>e. e_contest_id e = c_id c) (entries d)"
  have p: "fst (listEntries now rnd s d) =
             Inr \<lparr>p_entries = ?es, entryCount = None, p_phase = Voting\<rparr>"
    by (rule listEntries_Voting [OF assms])
  have m: "mset ?es = mset (map withoutName ?rows)"
    by (simp add: mset_shuffled mset_selectEntries)
  have "mset (map sentData ?es) = mset (map sentData (map withoutName ?rows))"
    using m by (metis mset_map)
  then have k: "mset (map sentData ?es) = mset (map entryData ?rows)"
    by (simp only: sentData_withoutName)
  have n: "map o_name ?es = replicate (length ?es) None"
    by (simp add: o_name_shuffled) (simp add: shuffled_def)
  have sc: "map score ?es = replicate (length ?es) None"
    by (simp add: shuffled_def case_prod_beta comp_def withoutName_def map_replicate_const)
  have vb: "map voteBreakdown ?es = replicate (length ?es) None"
    by (simp add: shuffled_def case_prod_beta comp_def withoutName_def map_replicate_const)
  have "fst (listEntries now rnd s d') = fst (listEntries now rnd s d)"
    if h: "findContest s d' = Some c'" and i: "c_id c' = c_id c"
      and v: "newPhase now c' = Voting"
      and e: "map entryData (entries d') = map entryData (entries d)"
  proof -
    have "map withoutName (entries d') = map withoutName (entries d)"
      using e by (rule withoutName_entryData)
    then have "map withoutName (selectEntries (c_id c) d') =
               map withoutName (selectEntries (c_id c) d)"
      by (simp only: withoutName_selectEntries)
    then have "shuffled rnd (selectEntries (c_id c) d') = shuffled rnd (selectEntries (c_id c) d)"
      by (rule shuffled_cong)
    then show ?thesis
      using listEntries_Voting [OF h v, of rnd] p i by simp
  qed
  with p k n sc vb m show ?thesis by blast
qed

theorem listEntries_voting_anonymous_permutation_witness:
  "findContest ''bake-off'' bake_db = Some bake_off \<and> newPhase 15 bake_off = Voting
   \<and> findContest ''bake-off'' bake_db_renamed = Some bake_off
   \<and> map entryData (entries bake_db_renamed) = map entryData (entries bake_db)
   \<and> fst (listEntries 15 (\<lambda>i. 7 - i) ''bake-off'' bake_db_renamed) =
       fst (listEntries 15 (\<lambda>i. 7 - i) ''bake-off'' bake_db)
   \<and> fst (listEntries 15 (\<lambda>i. 7 - i) ''bake-off'' bake_db) =
       Inr \<lparr>p_entries =
               [\<lparr>o_id = 3, o_contest_id = 1, o_name = None, o_image_filename = ''c.png'',
                 o_created_at = 3, score = None, voteBreakdown = None\<rparr>,
                \<lparr>o_id = 2, o_contest_id = 1, o_name = None, o_image_filename = ''b.png'',
                 o_created_at = 2, score = None, voteBreakdown = None\<rparr>,
                \<lparr>o_id = 1, o_contest_id = 1, o_name = None, o_image_filename = ''a.png'',
                 o_created_at = 1, score = None, voteBreakdown = None\<rparr>],
             entryCount = None, p_phase = Voting\<rparr>"
proof -
  have h: "findContest ''bake-off'' bake_db = Some bake_off"
    by (simp add: findContest_def example_defs)
  have n: "newPhase 15 bake_off = Voting"
    by (simp add: newPhase_def example_defs)
  have h': "findContest ''bake-off'' bake_db_renamed = Some bake_off"
    by (simp add: findContest_def example_defs)
  have e: "map entryData (entries bake_db_renamed) = map entryData (entries bake_db)"
    by (simp add: entryData_def example_defs)
  have s: "selectEntries (c_id bake_off) bake_db = [entryA, entryB, entryC]"
    by (simp add: selectEntries_def example_defs)
  have w: "fst (listEntries 15 (\<lambda>i. 7 - i) ''bake-off'' bake_db) =
       Inr \<lparr>p_entries = [withoutName entryC, withoutName entryB, withoutName entryA],
             entryCount = None, p_phase = Voting\<rparr>"
    by (simp add: listEntries_Voting [OF h n] s shuffled_def)
  have v: "fst (listEntries 15 (\<lambda>i. 7 - i) ''bake-off'' bake_db) =
       Inr \<lparr>p_entries =
               [\<lparr>o_id = 3, o_contest_id = 1, o_name = None, o_image_filename = ''c.png'',
                 o_created_at = 3, score = None, voteBreakdown = None\<rparr>,
                \<lparr>o_id = 2, o_contest_id = 1, o_name = None, o_image_filename = ''b.png'',
                 o_created_at = 2, score = None, voteBreakdown = None\<rparr>,
                \<lparr>o_id = 1, o_contest_id = 1, o_name = None, o_image_filename = ''a.png'',
                 o_created_at = 1, score = None, voteBreakdown = None\<rparr>],
             entryCount = None, p_phase = Voting\<rparr>"
    by (simp add: w withoutName_def entryA_def entryB_def entryC_def)
  note t = listEntries_voting_anonymous_permutation
             [OF h n, of "\<lambda>i. 7 - i" bake_db_renamed bake_off]
  have r: "fst (listEntries 15 (\<lambda>i. 7 - i) ''bake-off'' bake_db_renamed) =
           fst (listEntries 15 (\<lambda>i. 7 - i) ''bake-off'' bake_db)"
    using t h' n e by blast
  from h n h' e r v show ?thesis by blast
qed

text \<open>
  C1, at the ballots of \<open>tally_db\<close>. Entry 1 has two votes of rank 1, entry 2 one vote
  of rank 1 and one of rank 2, so the scoring rule gives entry 1 the score 6 and
  entry 2 the score 5. The results branch adds the points of a rank once for each row
  of the grouped query, not once for each vote: it gives entry 1 the score 3 and lists
  it after entry 2.
\<close>

theorem tally_counts_each_rank_once:
  "fst (listEntries 30 (id :: nat \<Rightarrow> nat) ''bake-off'' tally_db) =
     Inr \<lparr>p_entries =
             [\<lparr>o_id = 2, o_contest_id = 1, o_name = Some ''Bob'', o_image_filename = ''b.png'',
               o_created_at = 2, score = Some 5,
               voteBreakdown = Some \<lparr>first = 1, second = 1, third = 0\<rparr>\<rparr>,
              \<lparr>o_id = 1, o_contest_id = 1, o_name = Some ''Ann'', o_image_filename = ''a.png'',
               o_created_at = 1, score = Some 3,
               voteBreakdown = Some \<lparr>first = 2, second = 0, third = 0\<rparr>\<rparr>],
           entryCount = None, p_phase = Results\<rparr>
   \<and> spec_score 1 tally_db = 6 \<and> spec_score 2 tally_db = 5"
proof -
  have c: "getContestWithPhase 30 ''bake-off'' tally_db =
             (Some (bake_off\<lparr>current_phase := Results\<rparr>), tally_db)"
    by (simp add: getContestWithPhase_def findContest_def updateContestPhase_def newPhase_def
        example_defs)
  have e: "selectEntries (c_id bake_off) tally_db = [entryA, entryB]"
    by (simp add: selectEntries_def example_defs)
  have r1: "rankCounts 1 tally_db = [(1, 2)]"
    by (simp add: rankCounts_def example_defs)
  have r2: "rankCounts 2 tally_db = [(1, 1), (2, 1)]"
    by (simp add: rankCounts_def example_defs)
  have t1: "entryTally tally_db entryA = (3, \<lparr>first = 2, second = 0, third = 0\<rparr>)"
    using r1 by (simp add: entryTally_def tallyRow_def entryA_def)
  have t2: "entryTally tally_db entryB = (5, \<lparr>first = 1, second = 1, third = 0\<rparr>)"
    using r2 by (simp add: entryTally_def tallyRow_def entryB_def)
  have s: "sortByScore tally_db [entryA, entryB] = [entryB, entryA]"
    by (simp add: sortByScore_def t1 t2)
  have l: "fst (listEntries 30 (id :: nat \<Rightarrow> nat) ''bake-off'' tally_db) =
             Inr \<lparr>p_entries = [withVotes tally_db entryB, withVotes tally_db entryA],
                   entryCount = None, p_phase = Results\<rparr>"
    by (simp add: listEntries_def c e tally_def s)
  have w: "withVotes tally_db entryB =
             \<lparr>o_id = 2, o_contest_id = 1, o_name = Some ''Bob'', o_image_filename = ''b.png'',
               o_created_at = 2, score = Some 5,
               voteBreakdown = Some \<lparr>first = 1, second = 1, third = 0\<rparr>\<rparr>"
      "withVotes tally_db entryA =
             \<lparr>o_id = 1, o_contest_id = 1, o_name = Some ''Ann'', o_image_filename = ''a.png'',
               o_created_at = 1, score = Some 3,
               voteBreakdown = Some \<lparr>first = 2, second = 0, third = 0\<rparr>\<rparr>"
    by (simp_all add: withVotes_def t1 t2) (simp_all add: entryA_def entryB_def)
  have p: "spec_score 1 tally_db = 6" "spec_score 2 tally_db = 5"
    by (simp_all add: spec_score_def example_defs)
  show ?thesis
    by (simp only: l w p)
qed

section \<open>Facts about ballots\<close>

lemma outOfRange_Cons: "outOfRange (v # b) = ((rank v < 1 \<or> rank v > 3) \<or> outOfRange b)"
  by (auto simp: outOfRange_def)

lemma badRank_Cons:
  "badRank (v # b) = ((rank v \<noteq> 1 \<and> rank v \<noteq> 2 \<and> rank v \<noteq> 3) \<or> badRank b)"
  by (auto simp: badRank_def)

text \<open>On whole ranks the test of the handler is the test for a rank other than 1, 2, 3.\<close>

lemma integer_rank_range:
  assumes "r \<in> \<int>"
  shows "(r < 1 \<or> r > 3) = (r \<noteq> 1 \<and> r \<noteq> 2 \<and> r \<noteq> (3::rat))"
proof -
  from assms obtain k :: int where k: "r = of_int k"
    by (auto elim: Ints_cases)
  have "(k < 1 \<or> k > 3) = (k \<noteq> 1 \<and> k \<noteq> 2 \<and> k \<noteq> 3)"
    by arith
  moreover have "(r < 1) = (k < 1)" "(r > 3) = (k > 3)"
    "(r = 1) = (k = 1)" "(r = 2) = (k = 2)" "(r = 3) = (k = 3)"
    by (simp_all add: k)
  ultimately show ?thesis by simp
qed

lemma outOfRange_integer:
  assumes "\<forall>v\<in>set b. rank v \<in> \<int>"
  shows "outOfRange b = badRank b"
  using assms
  by (induction b) (simp_all add: outOfRange_Cons badRank_Cons integer_rank_range,
      simp_all add: outOfRange_def badRank_def)

lemma inContest_find:
  "(find (\<lambda>e. int (e_id e) = eid \<and> e_contest_id e = cid) (entries d) = None)
     = (\<not> inContest cid d eid)"
  by (auto simp: inContest_def find_None_iff)

lemma unknownEntry_Cons:
  "unknownEntry cid d (v # b) = (\<not> inContest cid d (entryId v) \<or> unknownEntry cid d b)"
  by (auto simp: unknownEntry_def)

lemma inContest_entries: "entries d' = entries d \<Longrightarrow> inContest cid d' = inContest cid d"
  by (simp add: inContest_def fun_eq_iff)

lemma unknownEntry_entries:
  "entries d' = entries d \<Longrightarrow> unknownEntry cid d' b = unknownEntry cid d b"
  using inContest_entries [of d' d cid] by (simp add: unknownEntry_def)

lemma validateVotes_entries:
  "entries d' = entries d \<Longrightarrow>
   validateVotes cid d' ranks ids b = validateVotes cid d ranks ids b"
  by (induction b arbitrary: ranks ids) simp_all

text \<open>The loop accepts a ballot exactly when none of its four checks can fail.\<close>

lemma validateVotes_None:
  "(validateVotes cid d ranks ids b = None) =
     (\<not> outOfRange b \<and> distinct (map rank b) \<and> set (map rank b) \<inter> set ranks = {}
      \<and> distinct (map entryId b) \<and> set (map entryId b) \<inter> set ids = {}
      \<and> \<not> unknownEntry cid d b)"
proof (induction b arbitrary: ranks ids)
  case Nil
  show ?case by (simp add: outOfRange_def unknownEntry_def)
next
  case (Cons v b)
  show ?case
    by (simp add: Cons.IH outOfRange_Cons unknownEntry_Cons inContest_find) blast
qed

text \<open>Each error of the loop names a defect that the ballot has.\<close>

lemma validateVotes_Some:
  "validateVotes cid d ranks ids b = Some e \<Longrightarrow>
     (e = InvalidRank \<and> outOfRange b)
   \<or> (e = DuplicateRank \<and> (\<not> distinct (map rank b) \<or> set (map rank b) \<inter> set ranks \<noteq> {}))
   \<or> (e = DuplicateEntry \<and> (\<not> distinct (map entryId b) \<or> set (map entryId b) \<inter> set ids \<noteq> {}))
   \<or> (e = UnknownEntry \<and> unknownEntry cid d b)"
proof (induction b arbitrary: ranks ids)
  case Nil
  then show ?case by simp
next
  case (Cons v b)
  show ?case
  proof (cases "rank v < 1 \<or> rank v > 3")
    case True
    with Cons.prems show ?thesis by (auto simp: outOfRange_Cons)
  next
    case r: False
    show ?thesis
    proof (cases "rank v \<in> set ranks")
      case True
      with r Cons.prems show ?thesis by auto
    next
      case nr: False
      show ?thesis
      proof (cases "entryId v \<in> set ids")
        case True
        with r nr Cons.prems show ?thesis by auto
      next
        case ni: False
        show ?thesis
        proof (cases "inContest cid d (entryId v)")
          case False
          with r nr ni Cons.prems show ?thesis
            by (auto simp: unknownEntry_Cons inContest_find)
        next
          case True
          with r nr ni Cons.prems
          have "validateVotes cid d (rank v # ranks) (entryId v # ids) b = Some e"
            by (simp add: inContest_find)
          from Cons.IH [OF this] show ?thesis
            by (auto simp: outOfRange_Cons unknownEntry_Cons)
        qed
      qed
    qed
  qed
qed

lemma filter_deleteVotes:
  "filter (\<lambda>v. v_contest_id v = cid \<and> voter_id v = voterId) (deleteVotes cid voterId vs) = []"
  by (simp add: deleteVotes_def filter_empty_conv)

lemma ballot_vote_eta: "\<lparr>entryId = entryId x, rank = rank x\<rparr> = (x::ballot_vote)"
  by (cases x) simp

text \<open>
  The rows that the ballot query finds after the delete and the inserts are the
  submitted votes, each once; their order is that of the entry ids.
\<close>

lemma selectBallot_replaced:
  assumes "votes d' = deleteVotes cid voterId vs @ map (voteRow cid voterId) b"
  shows "mset (selectBallot cid voterId d') = mset b"
proof -
  have f: "filter (\<lambda>v. v_contest_id v = cid \<and> voter_id v = voterId) (votes d') =
           map (voteRow cid voterId) b"
    by (simp add: assms filter_deleteVotes filter_map comp_def voteRow_def)
  have m: "map (\<lambda>v. \<lparr>entryId = entry_id v, rank = v_rank v\<rparr>) (map (voteRow cid voterId) b) = b"
    by (simp add: voteRow_def comp_def ballot_vote_eta)
  have "mset (selectBallot cid voterId d') =
        mset (map (\<lambda>v. \<lparr>entryId = entry_id v, rank = v_rank v\<rparr>) (map (voteRow cid voterId) b))"
    by (simp only: selectBallot_def f mset_map mset_sort)
  then show ?thesis by (simp only: m)
qed

lemma sorted_selectBallot: "sorted (map entryId (selectBallot cid voterId d))"
  by (simp add: selectBallot_def comp_def)

text \<open>
  The inserts of a ballot that passed the checks violate no constraint of the table,
  once the rows of this contest and voter have been deleted.
\<close>

lemma insertVotes_ok:
  assumes "\<not> outOfRange b" and "distinct (map rank b)" and "distinct (map entryId b)"
    and "\<forall>x\<in>set vs. v_contest_id x = cid \<and> voter_id x = voterId
           \<longrightarrow> v_rank x \<notin> rank ` set b \<and> entry_id x \<notin> entryId ` set b"
  shows "insertVotes cid voterId b vs = (None, vs @ map (voteRow cid voterId) b)"
  using assms
proof (induction b arbitrary: vs)
  case Nil
  show ?case by simp
next
  case (Cons v b)
  have ok: "\<not> violatesVoteConstraints (voteRow cid voterId v) vs"
    using Cons.prems(1) Cons.prems(4)
    by (auto simp: violatesVoteConstraints_def voteRow_def outOfRange_Cons find_None_iff)
  have nb: "\<not> outOfRange b"
    using Cons.prems(1) by (simp add: outOfRange_Cons)
  have inv: "\<forall>x\<in>set (vs @ [voteRow cid voterId v]).
               v_contest_id x = cid \<and> voter_id x = voterId
               \<longrightarrow> v_rank x \<notin> rank ` set b \<and> entry_id x \<notin> entryId ` set b"
    using Cons.prems(2,3,4) by (auto simp: voteRow_def)
  have "insertVotes cid voterId b (vs @ [voteRow cid voterId v]) =
          (None, (vs @ [voteRow cid voterId v]) @ map (voteRow cid voterId) b)"
    using Cons.prems(2,3) by (intro Cons.IH [OF nb _ _ inv]) simp_all
  with ok show ?case by simp
qed

lemma insertVotes_after_delete:
  assumes "validateVotes cid d [] [] b = None"
  shows "insertVotes cid voterId b (deleteVotes cid voterId vs) =
           (None, deleteVotes cid voterId vs @ map (voteRow cid voterId) b)"
proof -
  have "\<not> outOfRange b" and "distinct (map rank b)" and "distinct (map entryId b)"
    using assms by (simp_all add: validateVotes_None)
  moreover have "\<forall>x\<in>set (deleteVotes cid voterId vs).
          v_contest_id x = cid \<and> voter_id x = voterId
          \<longrightarrow> v_rank x \<notin> rank ` set b \<and> entry_id x \<notin> entryId ` set b"
    by (auto simp: deleteVotes_def)
  ultimately show ?thesis by (rule insertVotes_ok)
qed

lemma selectBallot_votes: "votes d' = votes d \<Longrightarrow> selectBallot cid v d' = selectBallot cid v d"
  by (simp add: selectBallot_def)

text \<open>
  \<open>castVote\<close> on a contest that exists, by the phase that the read resolves; a ballot
  that passed the checks is always inserted whole.
\<close>

lemma castVote_Some:
  assumes "findContest s d = Some c"
  shows "castVote now s voterId b d =
     (if newPhase now c \<noteq> Voting then (Inl PhaseClosed, resolveAt s now d)
      else if voterId = [] then (Inl InvalidVoteData, resolveAt s now d)
      else if length b > 3 then (Inl TooManySelections, resolveAt s now d)
      else (case validateVotes (c_id c) d [] [] b of
              Some e \<Rightarrow> (Inl e, resolveAt s now d)
            | None \<Rightarrow>
                (Inr (),
                 (resolveAt s now d)\<lparr>votes := deleteVotes (c_id c) voterId (votes d)
                                          @ map (voteRow (c_id c) voterId) b\<rparr>)))"
proof -
  have g: "getContestWithPhase now s d =
             (Some (c\<lparr>current_phase := newPhase now c\<rparr>), resolveAt s now d)"
    using getContestWithPhase_Some [OF assms, of now] by (simp add: resolveAt_def)
  have e: "entries (resolveAt s now d) = entries d"
    by (simp add: resolveAt_def entries_resolved)
  have v: "votes (resolveAt s now d) = votes d"
    by (simp add: resolveAt_def votes_resolved)
  have w: "validateVotes (c_id c) (resolveAt s now d) [] [] b = validateVotes (c_id c) d [] [] b"
    by (rule validateVotes_entries [OF e])
  show ?thesis
    by (simp add: castVote_def g v w insertVotes_after_delete split: option.split)
qed

lemma findContest_votes_update: "findContest s (d\<lparr>votes := vs\<rparr>) = findContest s d"
  by (simp add: findContest_def)

lemma getVoterBallot_Some:
  assumes "findContest s d = Some c"
  shows "fst (getVoterBallot now s voterId d) = Inr (selectBallot (c_id c) voterId d)"
proof -
  have "votes (snd (getContestWithPhase now s d)) = votes d"
    by (rule votes_resolved)
  then have "selectBallot (c_id c) voterId (snd (getContestWithPhase now s d)) =
             selectBallot (c_id c) voterId d"
    by (rule selectBallot_votes)
  then show ?thesis
    using getContestWithPhase_Some [OF assms, of now]
    by (simp add: getVoterBallot_def split: if_splits)
qed

lemma castVote_NotFound:
  "findContest s d = None \<Longrightarrow> castVote now s voterId b d = (Inl NotFound, d)"
  by (simp add: castVote_def getContestWithPhase_None)

text \<open>What an accepted submission leaves in the database.\<close>

lemma castVote_accepted:
  assumes "fst (castVote now s voterId b d) = Inr ()"
  shows "\<exists>c. findContest s d = Some c
           \<and> newPhase now c = Voting \<and> voterId \<noteq> [] \<and> length b \<le> 3
           \<and> validateVotes (c_id c) d [] [] b = None
           \<and> snd (castVote now s voterId b d) =
               (resolveAt s now d)\<lparr>votes := deleteVotes (c_id c) voterId (votes d)
                                        @ map (voteRow (c_id c) voterId) b\<rparr>"
proof (cases "findContest s d")
  case None
  with assms show ?thesis by (simp add: castVote_NotFound)
next
  case (Some c)
  with assms show ?thesis
    by (simp add: castVote_Some [OF Some] split: if_splits option.splits)
qed

text \<open>The ballot that is stored, and read back, after an accepted submission.\<close>

lemma ballot_after_castVote:
  assumes "fst (castVote now s voterId b d) = Inr ()"
  shows "(\<exists>c. findContest s d = Some c
            \<and> mset (selectBallot (c_id c) voterId (snd (castVote now s voterId b d))) = mset b)
       \<and> (\<exists>rows. fst (getVoterBallot now' s voterId (snd (castVote now s voterId b d))) = Inr rows
            \<and> mset rows = mset b)"
proof -
  from castVote_accepted [OF assms] obtain c where
    c: "findContest s d = Some c"
    and r: "snd (castVote now s voterId b d) =
              (resolveAt s now d)\<lparr>votes := deleteVotes (c_id c) voterId (votes d)
                                       @ map (voteRow (c_id c) voterId) b\<rparr>"
    by blast
  let ?d' = "snd (castVote now s voterId b d)"
  have sel: "mset (selectBallot (c_id c) voterId ?d') = mset b"
    by (rule selectBallot_replaced [where vs = "votes d"]) (simp add: r)
  have f: "findContest s ?d' = Some (c\<lparr>current_phase := newPhase now c\<rparr>)"
    by (simp add: r findContest_votes_update findContest_resolveAt [OF c])
  have "fst (getVoterBallot now' s voterId ?d') = Inr (selectBallot (c_id c) voterId ?d')"
    using getVoterBallot_Some [OF f, of now' voterId] by simp
  with c sel show ?thesis by blast
qed

subsection \<open>The handler on arbitrary field values\<close>

lemma of_nat_eq_of_int_rat: "((of_nat n :: rat) = of_int i) = (int n = i)"
  by (metis of_int_eq_iff of_int_of_nat_eq)

lemma find_entry_numeric:
  "find (\<lambda>e. (of_nat (e_id e) :: rat) = of_int i \<and> e_contest_id e = cid) es =
   find (\<lambda>e. int (e_id e) = i \<and> e_contest_id e = cid) es"
  by (simp add: of_nat_eq_of_int_rat)

lemma validateVotesRaw_numeric:
  "validateVotesRaw p cid d (map (\<lambda>r. JNum (Finite r)) ranks)
       (map (\<lambda>i. JNum (Finite (of_int i))) ids) (map rawVote b)
     = validateVotes cid d ranks ids b"
proof (induction b arbitrary: ranks ids)
  case Nil
  show ?case by simp
next
  case (Cons v b)
  have m1: "(JNum (Finite (rank v)) \<in> (\<lambda>r. JNum (Finite r)) ` set ranks) = (rank v \<in> set ranks)"
    by auto
  have m2: "(JNum (Finite (of_int (entryId v))) \<in> (\<lambda>i. JNum (Finite (of_int i))) ` set ids)
              = (entryId v \<in> set ids)"
    by auto
  have ih: "validateVotesRaw p cid d (JNum (Finite (rank v)) # map (\<lambda>r. JNum (Finite r)) ranks)
              (JNum (Finite (of_int (entryId v))) # map (\<lambda>i. JNum (Finite (of_int i))) ids)
              (map rawVote b)
            = validateVotes cid d (rank v # ranks) (entryId v # ids) b"
    using Cons.IH [of "rank v # ranks" "entryId v # ids"] by simp
  have r: "j_rank (rawVote v) = JNum (Finite (rank v))"
    "j_entryId (rawVote v) = JNum (Finite (of_int (entryId v)))"
    by (simp_all add: rawVote_def)
  show ?case
    by (simp add: r ih m1 m2 find_entry_numeric)
qed

lemma storedRow_numeric: "storedRow p cid voterId (rawVote v) = Some (voteRow cid voterId v)"
  by (simp add: storedRow_def rawVote_def voteRow_def)

lemma insertVotesRaw_numeric:
  "insertVotesRaw p cid voterId (map rawVote b) vs = insertVotes cid voterId b vs"
  by (induction b arbitrary: vs) (simp_all add: storedRow_numeric)

text \<open>
  On a body whose votes hold an integer entry id and a number as rank, the handler is
  \<open>castVote\<close>, whatever the platform.
\<close>

lemma castVoteRaw_numeric:
  "castVoteRaw p now s voterId (map rawVote b) d = castVote now s voterId b d"
proof -
  have w: "validateVotesRaw p cid d' [] [] (map rawVote b) = validateVotes cid d' [] [] b"
    for cid d'
    using validateVotesRaw_numeric [of p cid d' "[]" "[]" b] by simp
  show ?thesis
    by (simp add: castVoteRaw_def castVote_def insertVotesRaw_numeric w
             split: prod.split option.split)
qed

text \<open>
  A vote without rank passes the validation loop (no comparison with \<open>NaN\<close> is true) and
  fails at the insert, after the delete: the answer has status 500 and the ballot that
  the voter had is gone. This holds whatever the platform.
\<close>

lemma castVoteRaw_missing_rank:
  assumes "findContest s d = Some c" and "newPhase now c = Voting" and "voterId \<noteq> []"
    and "inContest (c_id c) d i"
  shows "castVoteRaw p now s voterId
             [\<lparr>j_entryId = JNum (Finite (of_int i)), j_rank = JUndefined\<rparr>] d =
           (Inl InternalError,
            (resolveAt s now d)\<lparr>votes := deleteVotes (c_id c) voterId (votes d)\<rparr>)"
proof -
  have g: "getContestWithPhase now s d =
             (Some (c\<lparr>current_phase := newPhase now c\<rparr>), resolveAt s now d)"
    using getContestWithPhase_Some [OF assms(1), of now] by (simp add: resolveAt_def)
  have e: "entries (resolveAt s now d) = entries d"
    by (simp add: resolveAt_def entries_resolved)
  have v: "votes (resolveAt s now d) = votes d"
    by (simp add: resolveAt_def votes_resolved)
  have f: "find (\<lambda>e. (of_nat (e_id e) :: rat) = of_int i \<and> e_contest_id e = c_id c)
             (entries d) \<noteq> None"
    using assms(4) by (simp add: find_entry_numeric inContest_find)
  have r: "storedRow p (c_id c) voterId
             \<lparr>j_entryId = JNum (Finite (of_int i)), j_rank = JUndefined\<rparr> = None"
    by (simp add: storedRow_def)
  show ?thesis
    using assms(2,3) f by (simp add: castVoteRaw_def g e v r)
qed

section \<open>Claims about ballots\<close>

text \<open>
  C2, amended. For every vote submission during the voting phase that has a non-empty
  voter identifier and whose votes each carry an integer entry id and an integer rank:
  the ballot is rejected with the corresponding error if and only if it has more than 3
  selections (\<open>TooManySelections\<close>), contains a rank value not in {1,2,3}, repeats a rank
  across the ballot (\<open>DuplicateRank\<close>), repeats an entry across the ballot
  (\<open>DuplicateEntry\<close>), or references an entry not belonging to this contest
  (\<open>UnknownEntry\<close>); a ballot of 1, 2, or 3 distinct in-contest entries with distinct
  ranks from {1,2,3} passes all checks and is recorded.

  Here the handler is the one on arbitrary field values, on any platform; the contest
  is one that the read resolves to the voting phase. The error corresponds to the
  ballot when it names a defect that the ballot has (\<open>InvalidRank\<close> is the error for a
  rank not in {1,2,3}), and it is \<open>TooManySelections\<close> exactly for more than 3
  selections. A rejected ballot leaves the votes table as it was; a recorded one is
  the ballot that the query of the voter then finds, each submitted vote once.
\<close>

theorem castVote_validation:
  assumes "findContest s d = Some c" and "newPhase now c = Voting" and "voterId \<noteq> []"
    and "\<forall>v\<in>set b. rank v \<in> \<int>"
  shows "((fst (castVoteRaw p now s voterId (map rawVote b) d) = Inr ()) =
            (length b \<le> 3 \<and> \<not> badRank b \<and> distinct (map rank b)
             \<and> distinct (map entryId b) \<and> \<not> unknownEntry (c_id c) d b))
       \<and> ((fst (castVoteRaw p now s voterId (map rawVote b) d) = Inl TooManySelections)
            = (length b > 3))
       \<and> (fst (castVoteRaw p now s voterId (map rawVote b) d) = Inl InvalidRank
            \<longrightarrow> badRank b)
       \<and> (fst (castVoteRaw p now s voterId (map rawVote b) d) = Inl DuplicateRank
            \<longrightarrow> \<not> distinct (map rank b))
       \<and> (fst (castVoteRaw p now s voterId (map rawVote b) d) = Inl DuplicateEntry
            \<longrightarrow> \<not> distinct (map entryId b))
       \<and> (fst (castVoteRaw p now s voterId (map rawVote b) d) = Inl UnknownEntry
            \<longrightarrow> unknownEntry (c_id c) d b)
       \<and> fst (castVoteRaw p now s voterId (map rawVote b) d) \<in>
            {Inr (), Inl TooManySelections, Inl InvalidRank, Inl DuplicateRank,
             Inl DuplicateEntry, Inl UnknownEntry}
       \<and> (fst (castVoteRaw p now s voterId (map rawVote b) d) = Inr ()
            \<longrightarrow> mset (selectBallot (c_id c) voterId
                        (snd (castVoteRaw p now s voterId (map rawVote b) d))) = mset b)
       \<and> (fst (castVoteRaw p now s voterId (map rawVote b) d) \<noteq> Inr ()
            \<longrightarrow> votes (snd (castVoteRaw p now s voterId (map rawVote b) d)) = votes d)"
proof (cases "length b > 3")
  case True
  then show ?thesis
    using assms(2,3)
    by (simp add: castVoteRaw_numeric castVote_Some [OF assms(1)] resolveAt_def votes_resolved)
next
  case len: False
  note rg = outOfRange_integer [OF assms(4)]
  show ?thesis
  proof (cases "validateVotes (c_id c) d [] [] b")
    case None
    then have ok: "\<not> badRank b \<and> distinct (map rank b) \<and> distinct (map entryId b)
                   \<and> \<not> unknownEntry (c_id c) d b"
      by (simp add: validateVotes_None rg)
    have r: "castVote now s voterId b d =
               (Inr (), (resolveAt s now d)\<lparr>votes := deleteVotes (c_id c) voterId (votes d)
                                 @ map (voteRow (c_id c) voterId) b\<rparr>)"
      using assms(2,3) len None by (simp add: castVote_Some [OF assms(1)])
    have "mset (selectBallot (c_id c) voterId (snd (castVote now s voterId b d))) = mset b"
      by (rule selectBallot_replaced [where vs = "votes d"]) (simp add: r)
    then show ?thesis
      using ok len by (simp add: castVoteRaw_numeric r)
  next
    case (Some e)
    have r: "castVote now s voterId b d = (Inl e, resolveAt s now d)"
      using assms(2,3) len Some by (simp add: castVote_Some [OF assms(1)])
    have bad: "\<not> (\<not> badRank b \<and> distinct (map rank b) \<and> distinct (map entryId b)
                   \<and> \<not> unknownEntry (c_id c) d b)"
      using Some validateVotes_None [of "c_id c" d "[]" "[]" b] by (simp add: rg)
    have v: "votes (resolveAt s now d) = votes d"
      by (simp add: resolveAt_def votes_resolved)
    from validateVotes_Some [OF Some] show ?thesis
      using len bad v by (auto simp: castVoteRaw_numeric r rg)
  qed
qed

theorem castVote_validation_witness:
  "findContest ''bake-off'' bake_db = Some bake_off \<and> newPhase 15 bake_off = Voting
   \<and> ''v1'' \<noteq> [] \<and> (1::rat) \<in> \<int> \<and> (3::rat) \<in> \<int>
   \<and> fst (castVoteRaw example_platform 15 ''bake-off'' ''v1''
            (map rawVote [\<lparr>entryId = 3, rank = 1\<rparr>, \<lparr>entryId = 2, rank = 3\<rparr>]) bake_db)
       = Inr ()
   \<and> mset (selectBallot 1 ''v1''
        (snd (castVoteRaw example_platform 15 ''bake-off'' ''v1''
               (map rawVote [\<lparr>entryId = 3, rank = 1\<rparr>, \<lparr>entryId = 2, rank = 3\<rparr>]) bake_db)))
       = mset [\<lparr>entryId = 3, rank = 1\<rparr>, \<lparr>entryId = 2, rank = 3\<rparr>]"
proof -
  have h: "findContest ''bake-off'' bake_db = Some bake_off"
    by (simp add: findContest_def example_defs)
  have n: "newPhase 15 bake_off = Voting"
    by (simp add: newPhase_def example_defs)
  have v: "''v1'' \<noteq> []" by simp
  have z: "\<forall>v\<in>set [\<lparr>entryId = 3, rank = 1\<rparr>, \<lparr>entryId = 2, rank = 3\<rparr>]. rank v \<in> \<int>"
    by simp
  have i: "c_id bake_off = 1" by (simp add: bake_off_def)
  have w: "length [\<lparr>entryId = 3, rank = 1\<rparr>, \<lparr>entryId = 2, rank = 3::rat\<rparr>] \<le> 3
         \<and> \<not> badRank [\<lparr>entryId = 3, rank = 1\<rparr>, \<lparr>entryId = 2, rank = 3\<rparr>]
         \<and> distinct (map rank [\<lparr>entryId = 3, rank = 1\<rparr>, \<lparr>entryId = 2::int, rank = 3::rat\<rparr>])
         \<and> distinct (map entryId [\<lparr>entryId = 3, rank = 1\<rparr>, \<lparr>entryId = 2::int, rank = 3::rat\<rparr>])
         \<and> \<not> unknownEntry (c_id bake_off) bake_db
                [\<lparr>entryId = 3, rank = 1\<rparr>, \<lparr>entryId = 2, rank = 3\<rparr>]"
    by (simp add: badRank_def unknownEntry_def inContest_def example_defs)
  note t = castVote_validation [OF h n v z, of example_platform]
  have a: "fst (castVoteRaw example_platform 15 ''bake-off'' ''v1''
            (map rawVote [\<lparr>entryId = 3, rank = 1\<rparr>, \<lparr>entryId = 2, rank = 3\<rparr>]) bake_db)
       = Inr ()"
    using t w by blast
  have b: "mset (selectBallot (c_id bake_off) ''v1''
        (snd (castVoteRaw example_platform 15 ''bake-off'' ''v1''
               (map rawVote [\<lparr>entryId = 3, rank = 1\<rparr>, \<lparr>entryId = 2, rank = 3\<rparr>]) bake_db)))
       = mset [\<lparr>entryId = 3, rank = 1\<rparr>, \<lparr>entryId = 2, rank = 3\<rparr>]"
    using t a by blast
  have o: "(1::rat) \<in> \<int> \<and> (3::rat) \<in> \<int>" by simp
  from h n v o a b [unfolded i] show ?thesis by blast
qed

text \<open>
  C2 as stated fails at three submissions during the voting phase. With the empty
  string as voter identifier, a ballot of one entry of the contest with rank 1 is
  answered with \<open>Invalid vote data\<close> and nothing is recorded. A ballot whose only rank
  is 3/2, which is not in {1,2,3}, is accepted and stored with that rank. A ballot
  whose only vote has no rank passes the loop of checks and fails at the insert, after
  the delete: the error is none of the claim, and the ballot that the voter had is
  gone.
\<close>

theorem castVote_empty_voter_counterexample:
  "fst (castVoteRaw example_platform 15 ''bake-off'' ''''
          [\<lparr>j_entryId = JNum (Finite 1), j_rank = JNum (Finite 1)\<rparr>] bake_db)
     = Inl InvalidVoteData
   \<and> votes (snd (castVoteRaw example_platform 15 ''bake-off'' ''''
          [\<lparr>j_entryId = JNum (Finite 1), j_rank = JNum (Finite 1)\<rparr>] bake_db)) = []
   \<and> fst (castVoteRaw example_platform 15 ''bake-off'' ''v1''
          [\<lparr>j_entryId = JNum (Finite 1), j_rank = JNum (Finite (3 / 2))\<rparr>] bake_db)
     = Inr ()
   \<and> votes (snd (castVoteRaw example_platform 15 ''bake-off'' ''v1''
          [\<lparr>j_entryId = JNum (Finite 1), j_rank = JNum (Finite (3 / 2))\<rparr>] bake_db))
     = [\<lparr>v_contest_id = 1, voter_id = ''v1'', entry_id = 1, v_rank = 3 / 2\<rparr>]
   \<and> selectBallot 1 ''v1'' (tally_db\<lparr>contests := [bake_off]\<rparr>)
     = [\<lparr>entryId = 1, rank = 1\<rparr>, \<lparr>entryId = 2, rank = 2\<rparr>]
   \<and> fst (castVoteRaw example_platform 15 ''bake-off'' ''v1''
          [\<lparr>j_entryId = JNum (Finite 1), j_rank = JUndefined\<rparr>]
          (tally_db\<lparr>contests := [bake_off]\<rparr>))
     = Inl InternalError
   \<and> selectBallot 1 ''v1''
        (snd (castVoteRaw example_platform 15 ''bake-off'' ''v1''
          [\<lparr>j_entryId = JNum (Finite 1), j_rank = JUndefined\<rparr>]
          (tally_db\<lparr>contests := [bake_off]\<rparr>)))
     = []"
proof -
  have h: "findContest ''bake-off'' bake_db = Some bake_off"
    by (simp add: findContest_def example_defs)
  have n: "newPhase 15 bake_off = Voting"
    by (simp add: newPhase_def example_defs)
  have i: "c_id bake_off = 1" by (simp add: bake_off_def)
  have v: "votes (resolveAt ''bake-off'' 15 bake_db) = []"
    by (simp add: resolveAt_def votes_resolved) (simp add: example_defs)
  have e1: "[\<lparr>j_entryId = JNum (Finite 1), j_rank = JNum (Finite 1)\<rparr>]
              = map rawVote [\<lparr>entryId = 1, rank = 1\<rparr>]"
    by (simp add: rawVote_def)
  have a: "castVoteRaw example_platform 15 ''bake-off'' ''''
             [\<lparr>j_entryId = JNum (Finite 1), j_rank = JNum (Finite 1)\<rparr>] bake_db
           = (Inl InvalidVoteData, resolveAt ''bake-off'' 15 bake_db)"
    unfolding e1 castVoteRaw_numeric using n by (simp add: castVote_Some [OF h])
  have e2: "[\<lparr>j_entryId = JNum (Finite 1), j_rank = JNum (Finite (3 / 2))\<rparr>]
              = map rawVote [\<lparr>entryId = 1, rank = 3 / 2\<rparr>]"
    by (simp add: rawVote_def)
  have vv: "validateVotes (c_id bake_off) bake_db [] [] [\<lparr>entryId = 1, rank = 3 / 2\<rparr>] = None"
    by (simp add: example_defs)
  have b: "castVoteRaw example_platform 15 ''bake-off'' ''v1''
             [\<lparr>j_entryId = JNum (Finite 1), j_rank = JNum (Finite (3 / 2))\<rparr>] bake_db
           = (Inr (), (resolveAt ''bake-off'' 15 bake_db)
                        \<lparr>votes := [\<lparr>v_contest_id = 1, voter_id = ''v1'', entry_id = 1,
                                    v_rank = 3 / 2\<rparr>]\<rparr>)"
    unfolding e2 castVoteRaw_numeric using n vv
    by (simp add: castVote_Some [OF h] del: validateVotes.simps)
       (simp add: deleteVotes_def voteRow_def i bake_db_def)
  define d0 where "d0 = tally_db\<lparr>contests := [bake_off]\<rparr>"
  have h0: "findContest ''bake-off'' d0 = Some bake_off"
    by (simp add: d0_def findContest_def example_defs)
  have s0: "selectBallot 1 ''v1'' d0 = [\<lparr>entryId = 1, rank = 1\<rparr>, \<lparr>entryId = 2, rank = 2\<rparr>]"
    by (simp add: d0_def selectBallot_def example_defs)
  have k: "inContest (c_id bake_off) d0 1"
    by (simp add: d0_def inContest_def example_defs)
  have v1: "''v1'' \<noteq> []" by simp
  have c: "castVoteRaw example_platform 15 ''bake-off'' ''v1''
             [\<lparr>j_entryId = JNum (Finite 1), j_rank = JUndefined\<rparr>] d0
           = (Inl InternalError,
              (resolveAt ''bake-off'' 15 d0)\<lparr>votes := deleteVotes (c_id bake_off) ''v1''
                                                        (votes d0)\<rparr>)"
    using castVoteRaw_missing_rank [OF h0 n v1 k, of example_platform] by simp
  have s1: "selectBallot 1 ''v1''
              ((resolveAt ''bake-off'' 15 d0)\<lparr>votes := deleteVotes (c_id bake_off) ''v1''
                                                        (votes d0)\<rparr>) = []"
    by (simp add: selectBallot_def i filter_deleteVotes)
  from a b c s0 s1 v show ?thesis
    unfolding d0_def by simp
qed

text \<open>
  C4. After a vote submission that succeeded, the rows of the votes table for this
  contest and voter are exactly the submitted (entry, rank) pairs, each once, whatever
  the voter had stored before; a later \<open>getVoterBallot\<close>, at any instant, returns
  exactly them. The order of the rows is left open: the query has no \<open>ORDER BY\<close>.
  The submitted votes carry an integer entry id and a number as rank, as in
  \<open>[{ entryId: 1, rank: 1 }]\<close>.
\<close>

theorem castVote_replaces_ballot:
  assumes "fst (castVote now s voterId b d) = Inr ()"
  shows "(\<exists>c. findContest s d = Some c
            \<and> mset (selectBallot (c_id c) voterId (snd (castVote now s voterId b d))) = mset b)
       \<and> (\<exists>rows. fst (getVoterBallot now' s voterId (snd (castVote now s voterId b d)))
                    = Inr rows
            \<and> mset rows = mset b)"
  using assms by (rule ballot_after_castVote)

theorem castVote_replaces_ballot_witness:
  "fst (castVote 16 ''bake-off'' ''v1''
         [\<lparr>entryId = 2, rank = 3\<rparr>, \<lparr>entryId = 3, rank = 1\<rparr>, \<lparr>entryId = 1, rank = 2\<rparr>]
         (snd (castVote 15 ''bake-off'' ''v1''
                 [\<lparr>entryId = 1, rank = 1\<rparr>, \<lparr>entryId = 2, rank = 2\<rparr>] bake_db))) = Inr ()
   \<and> fst (getVoterBallot 17 ''bake-off'' ''v1''
           (snd (castVote 16 ''bake-off'' ''v1''
              [\<lparr>entryId = 2, rank = 3\<rparr>, \<lparr>entryId = 3, rank = 1\<rparr>, \<lparr>entryId = 1, rank = 2\<rparr>]
              (snd (castVote 15 ''bake-off'' ''v1''
                      [\<lparr>entryId = 1, rank = 1\<rparr>, \<lparr>entryId = 2, rank = 2\<rparr>] bake_db)))))
       = Inr [\<lparr>entryId = 1, rank = 2\<rparr>, \<lparr>entryId = 2, rank = 3\<rparr>, \<lparr>entryId = 3, rank = 1\<rparr>]
   \<and> mset [\<lparr>entryId = 1, rank = 2\<rparr>, \<lparr>entryId = 2, rank = 3\<rparr>, \<lparr>entryId = 3, rank = 1::rat\<rparr>]
       = mset [\<lparr>entryId = 2, rank = 3\<rparr>, \<lparr>entryId = 3, rank = 1\<rparr>, \<lparr>entryId = 1, rank = 2\<rparr>]"
proof -
  define d1 where
    "d1 = snd (castVote 15 ''bake-off'' ''v1''
                 [\<lparr>entryId = 1, rank = 1\<rparr>, \<lparr>entryId = 2, rank = 2\<rparr>] bake_db)"
  define b2 :: "ballot_vote list" where
    "b2 = [\<lparr>entryId = 2, rank = 3\<rparr>, \<lparr>entryId = 3, rank = 1\<rparr>, \<lparr>entryId = 1, rank = 2\<rparr>]"
  have h: "findContest ''bake-off'' bake_db = Some bake_off"
    by (simp add: findContest_def example_defs)
  have i: "c_id bake_off = 1" by (simp add: bake_off_def)
  have h1: "findContest ''bake-off'' d1 = Some (bake_off\<lparr>current_phase := Voting\<rparr>)"
    unfolding d1_def
    by (simp add: castVote_Some [OF h] findContest_votes_update findContest_resolveAt [OF h]
        split: option.split)
       (simp add: newPhase_def example_defs)
  have e1: "entries d1 = entries bake_db"
    unfolding d1_def
    by (simp add: castVote_Some [OF h] resolveAt_def entries_resolved split: option.split)
  have n1: "newPhase 16 (bake_off\<lparr>current_phase := Voting\<rparr>) = Voting"
    by (simp add: newPhase_def bake_off_def)
  have vv: "validateVotes (c_id bake_off) bake_db [] [] b2 = None"
    by (simp add: b2_def example_defs)
  have l: "length b2 = 3" by (simp add: b2_def)
  have a: "fst (castVote 16 ''bake-off'' ''v1'' b2 d1) = Inr ()"
    by (simp add: castVote_Some [OF h1] n1 l validateVotes_entries [OF e1] vv
        del: validateVotes.simps)
  from castVote_replaces_ballot [OF a, of 17] obtain rows where
    g: "fst (getVoterBallot 17 ''bake-off'' ''v1'' (snd (castVote 16 ''bake-off'' ''v1'' b2 d1)))
          = Inr rows"
    and m: "mset rows = mset b2"
    by blast
  from castVote_accepted [OF a] h1 have
    r: "snd (castVote 16 ''bake-off'' ''v1'' b2 d1) =
          (resolveAt ''bake-off'' 16 d1)\<lparr>votes := deleteVotes (c_id bake_off) ''v1'' (votes d1)
                                                  @ map (voteRow (c_id bake_off) ''v1'') b2\<rparr>"
    by auto
  have f2: "findContest ''bake-off'' (snd (castVote 16 ''bake-off'' ''v1'' b2 d1)) =
              Some (bake_off\<lparr>current_phase := Voting\<rparr>)"
    using findContest_resolveAt [OF h1, of 16] n1
    by (simp add: r findContest_votes_update)
  have fl: "filter (\<lambda>v. v_contest_id v = c_id bake_off \<and> voter_id v = ''v1'')
              (deleteVotes (c_id bake_off) ''v1'' (votes d1)
                 @ map (voteRow (c_id bake_off) ''v1'') b2)
            = map (voteRow (c_id bake_off) ''v1'') b2"
    by (simp add: filter_deleteVotes filter_map comp_def voteRow_def)
  have vs: "votes (snd (castVote 16 ''bake-off'' ''v1'' b2 d1)) =
              deleteVotes (c_id bake_off) ''v1'' (votes d1)
                @ map (voteRow (c_id bake_off) ''v1'') b2"
    by (simp add: r)
  have s: "selectBallot (c_id bake_off) ''v1'' (snd (castVote 16 ''bake-off'' ''v1'' b2 d1))
             = [\<lparr>entryId = 1, rank = 2\<rparr>, \<lparr>entryId = 2, rank = 3\<rparr>, \<lparr>entryId = 3, rank = 1\<rparr>]"
    by (simp only: selectBallot_def vs fl) (simp add: b2_def voteRow_def)
  have "rows = [\<lparr>entryId = 1, rank = 2\<rparr>, \<lparr>entryId = 2, rank = 3\<rparr>, \<lparr>entryId = 3, rank = 1\<rparr>]"
    using g s getVoterBallot_Some [OF f2, of 17 "''v1''"] by simp
  with a g m show ?thesis
    unfolding d1_def b2_def by simp
qed

text \<open>
  C10, amended. For a voter with a non-empty identifier and a contest that the read
  resolves to the voting phase, an empty ballot is accepted: it deletes every vote the
  voter had in this contest and inserts nothing, and a later \<open>getVoterBallot\<close> returns
  the empty list.
\<close>

theorem empty_ballot_clears:
  assumes "findContest s d = Some c" and "newPhase now c = Voting" and "voterId \<noteq> []"
  shows "castVote now s voterId [] d =
           (Inr (), (resolveAt s now d)\<lparr>votes := deleteVotes (c_id c) voterId (votes d)\<rparr>)
       \<and> fst (getVoterBallot now' s voterId (snd (castVote now s voterId [] d))) = Inr []"
proof -
  have r: "castVote now s voterId [] d =
           (Inr (), (resolveAt s now d)\<lparr>votes := deleteVotes (c_id c) voterId (votes d)\<rparr>)"
    using assms by (simp add: castVote_Some [OF assms(1)])
  then have "fst (castVote now s voterId [] d) = Inr ()" by simp
  from ballot_after_castVote [OF this, of now'] r show ?thesis by auto
qed

theorem empty_ballot_clears_witness:
  "findContest ''bake-off'' tally_db = Some (bake_off\<lparr>current_phase := Results\<rparr>)
   \<and> findContest ''bake-off'' (tally_db\<lparr>contests := [bake_off]\<rparr>) = Some bake_off
   \<and> newPhase 15 bake_off = Voting \<and> ''v1'' \<noteq> []
   \<and> selectBallot 1 ''v1'' (tally_db\<lparr>contests := [bake_off]\<rparr>)
        = [\<lparr>entryId = 1, rank = 1\<rparr>, \<lparr>entryId = 2, rank = 2\<rparr>]
   \<and> fst (castVote 15 ''bake-off'' ''v1'' [] (tally_db\<lparr>contests := [bake_off]\<rparr>)) = Inr ()
   \<and> fst (getVoterBallot 16 ''bake-off'' ''v1''
           (snd (castVote 15 ''bake-off'' ''v1'' [] (tally_db\<lparr>contests := [bake_off]\<rparr>))))
       = Inr []"
proof -
  have h0: "findContest ''bake-off'' tally_db = Some (bake_off\<lparr>current_phase := Results\<rparr>)"
    by (simp add: findContest_def example_defs)
  have h: "findContest ''bake-off'' (tally_db\<lparr>contests := [bake_off]\<rparr>) = Some bake_off"
    by (simp add: findContest_def example_defs)
  have n: "newPhase 15 bake_off = Voting"
    by (simp add: newPhase_def example_defs)
  have v: "''v1'' \<noteq> []" by simp
  have s: "selectBallot 1 ''v1'' (tally_db\<lparr>contests := [bake_off]\<rparr>)
        = [\<lparr>entryId = 1, rank = 1\<rparr>, \<lparr>entryId = 2, rank = 2\<rparr>]"
    by (simp add: selectBallot_def example_defs)
  note t = empty_ballot_clears [OF h n v, of 16]
  have a: "fst (castVote 15 ''bake-off'' ''v1'' [] (tally_db\<lparr>contests := [bake_off]\<rparr>)) = Inr ()"
    using t by simp
  have b: "fst (getVoterBallot 16 ''bake-off'' ''v1''
             (snd (castVote 15 ''bake-off'' ''v1'' [] (tally_db\<lparr>contests := [bake_off]\<rparr>))))
           = Inr []"
    using t by blast
  from h0 h n v s a b show ?thesis by blast
qed

text \<open>
  C10 as stated fails for the voter identifier that is the empty string: the empty
  ballot is answered with \<open>Invalid vote data\<close>.
\<close>

theorem empty_ballot_empty_voter_counterexample:
  "fst (castVote 15 ''bake-off'' '''' [] bake_db) = Inl InvalidVoteData"
proof -
  have h: "findContest ''bake-off'' bake_db = Some bake_off"
    by (simp add: findContest_def example_defs)
  have n: "newPhase 15 bake_off = Voting"
    by (simp add: newPhase_def example_defs)
  show ?thesis
    using n by (simp add: castVote_Some [OF h])
qed

section \<open>Facts about resolution before use\<close>

lemma getContestWithPhase_resolved:
  "getContestWithPhase now s d =
     (map_option (\<lambda>c. c\<lparr>current_phase := newPhase now c\<rparr>) (findContest s d),
      resolveAt s now d)"
proof (cases "findContest s d")
  case None
  then show ?thesis by (simp add: getContestWithPhase_None resolveAt_def)
next
  case (Some c)
  then show ?thesis
    using getContestWithPhase_Some [OF Some, of now] by (simp add: resolveAt_def)
qed

lemma storedPhase_contests: "contests d' = contests d \<Longrightarrow> storedPhase s d' = storedPhase s d"
  by (simp add: storedPhase_def findContest_def)

lemma storedPhase_resolveAt:
  "storedPhase s (resolveAt s now d) = map_option (newPhase now) (findContest s d)"
proof (cases "findContest s d")
  case None
  then show ?thesis by (simp add: storedPhase_def findContest_resolveAt_None)
next
  case (Some c)
  then show ?thesis by (simp add: storedPhase_def findContest_resolveAt [OF Some])
qed

lemma contests_getContest: "contests (snd (getContest now s d)) = contests (resolveAt s now d)"
  by (simp add: getContest_def getContestWithPhase_resolved split: option.split)

lemma contests_listEntries:
  "contests (snd (listEntries now rnd s d)) = contests (resolveAt s now d)"
  by (simp add: listEntries_def getContestWithPhase_resolved split: option.split phase.split)

lemma contests_createEntry:
  "contests (snd (createEntry now s name file d)) = contests (resolveAt s now d)"
  by (simp add: createEntry_def getContestWithPhase_resolved split: option.split)

lemma contests_castVote:
  "contests (snd (castVote now s voterId b d)) = contests (resolveAt s now d)"
proof (cases "findContest s d")
  case None
  then show ?thesis
    by (simp add: castVote_NotFound resolveAt_def getContestWithPhase_None)
next
  case (Some c)
  show ?thesis
    by (simp add: castVote_Some [OF Some] split: option.split)
qed

lemma contests_getVoterBallot:
  "contests (snd (getVoterBallot now s voterId d)) = contests (resolveAt s now d)"
  by (simp add: getVoterBallot_def getContestWithPhase_resolved split: option.split)

lemma createEntry_PhaseClosed:
  assumes "findContest s d = Some c"
  shows "(fst (createEntry now s name file d) = Inl PhaseClosed) = (newPhase now c \<noteq> Submission)"
  using assms
  by (simp add: createEntry_def getContestWithPhase_resolved split: option.split)

lemma castVote_PhaseClosed:
  assumes "findContest s d = Some c"
  shows "(fst (castVote now s voterId b d) = Inl PhaseClosed) = (newPhase now c \<noteq> Voting)"
proof -
  have "validateVotes (c_id c) d [] [] b \<noteq> Some PhaseClosed"
    using validateVotes_Some [of "c_id c" d "[]" "[]" b PhaseClosed] by auto
  then show ?thesis
    by (auto simp: castVote_Some [OF assms] split: option.split)
qed

lemma getContest_phase:
  assumes "findContest s d = Some c"
  shows "map_sum id i_current_phase (fst (getContest now s d)) = Inr (newPhase now c)"
  using assms
  by (simp add: getContest_def getContestWithPhase_resolved withoutPinHash_def)

lemma listEntries_phase:
  assumes "findContest s d = Some c"
  shows "map_sum id p_phase (fst (listEntries now rnd s d)) = Inr (newPhase now c)"
  using assms
  by (simp add: listEntries_def getContestWithPhase_resolved split: phase.split)

text \<open>The admin handlers leave the stored phase alone unless the request forces one.\<close>

lemma find_map_slug:
  assumes "\<And>c. slug (f c) = slug c"
  shows "find (\<lambda>c. slug c = s) (map f cs) = map_option f (find (\<lambda>c. slug c = s) cs)"
  by (induction cs) (simp_all add: assms)

lemma storedPhase_setDeadlines: "storedPhase s (setDeadlines i sd vd d) = storedPhase s d"
proof -
  let ?f = "\<lambda>c. if c_id c = i then c\<lparr>submission_deadline := sd, voting_deadline := vd\<rparr> else c"
  have "find (\<lambda>c. slug c = s) (map ?f (contests d)) =
          map_option ?f (find (\<lambda>c. slug c = s) (contests d))"
    by (rule find_map_slug) simp
  then show ?thesis
    by (simp add: storedPhase_def findContest_def setDeadlines_def option.map_comp comp_def
        if_distrib [of current_phase] cong: if_cong)
qed

lemma adminUpdate_keeps_phase:
  "storedPhase s (snd (adminUpdate hashPin s pin sd vd None d)) = storedPhase s d"
  by (simp add: adminUpdate_def storedPhase_setDeadlines split: option.split)

lemma adminDeleteEntry_contests:
  "contests (snd (adminDeleteEntry hashPin s pin eid d)) = contests d"
  by (simp add: adminDeleteEntry_def split: option.split)

section \<open>Claims about the admin operations and the read paths\<close>

text \<open>
  C3, amended. Each non-admin operation that reads a contest (getContest, listEntries,
  createEntry, castVote, getVoterBallot) resolves the phase first: it behaves as if
  the phase had been resolved and stored at the instant of the call before it ran, and
  it leaves the resolved phase in the database. For a contest that exists, the phase
  that getContest and listEntries report is the resolved one, createEntry answers
  \<open>PhaseClosed\<close> exactly when the resolved phase is not submission, and castVote
  exactly when it is not voting. The admin operations do not resolve: verify and the
  admin listing leave the database as it is, the deletion of an entry leaves the
  contests as they are, and an update that forces no phase leaves the stored phase as
  it is.
\<close>

theorem public_reads_resolve_phase_first:
  "resolves_first s now (getContest now s) d
   \<and> resolves_first s now (listEntries now rnd s) d
   \<and> resolves_first s now (createEntry now s name file) d
   \<and> resolves_first s now (castVote now s voterId b) d
   \<and> resolves_first s now (getVoterBallot now s voterId) d
   \<and> (findContest s d = Some c \<longrightarrow>
         map_sum id i_current_phase (fst (getContest now s d)) = Inr (newPhase now c)
       \<and> map_sum id p_phase (fst (listEntries now rnd s d)) = Inr (newPhase now c)
       \<and> (fst (createEntry now s name file d) = Inl PhaseClosed) = (newPhase now c \<noteq> Submission)
       \<and> (fst (castVote now s voterId b d) = Inl PhaseClosed) = (newPhase now c \<noteq> Voting))
   \<and> snd (adminVerify hashPin s pin d) = d
   \<and> snd (adminEntries hashPin s pin d) = d
   \<and> contests (snd (adminDeleteEntry hashPin s pin eid d)) = contests d
   \<and> storedPhase s (snd (adminUpdate hashPin s pin sd vd None d)) = storedPhase s d"
proof -
  have 6: "snd (adminVerify hashPin s pin d) = d"
    by (simp add: adminVerify_def split: option.split)
  have 7: "snd (adminEntries hashPin s pin d) = d"
    by (simp add: adminEntries_def split: option.split)
  have 1: "resolves_first s now (getContest now s) d"
    by (simp add: resolves_first_def storedPhase_contests [OF contests_getContest]
        storedPhase_resolveAt)
       (simp add: getContest_def getContestWithPhase_resolveAt)
  have 2: "resolves_first s now (listEntries now rnd s) d"
    by (simp add: resolves_first_def storedPhase_contests [OF contests_listEntries]
        storedPhase_resolveAt)
       (simp add: listEntries_def getContestWithPhase_resolveAt)
  have 3: "resolves_first s now (createEntry now s name file) d"
    by (simp add: resolves_first_def storedPhase_contests [OF contests_createEntry]
        storedPhase_resolveAt)
       (simp add: createEntry_def getContestWithPhase_resolveAt)
  have 4: "resolves_first s now (castVote now s voterId b) d"
    by (simp add: resolves_first_def storedPhase_contests [OF contests_castVote]
        storedPhase_resolveAt)
       (simp add: castVote_def getContestWithPhase_resolveAt)
  have 5: "resolves_first s now (getVoterBallot now s voterId) d"
    by (simp add: resolves_first_def storedPhase_contests [OF contests_getVoterBallot]
        storedPhase_resolveAt)
       (simp add: getVoterBallot_def getContestWithPhase_resolveAt)
  show ?thesis
    using 1 2 3 4 5 6 7 getContest_phase [of s d c now] listEntries_phase [of s d c now rnd]
      createEntry_PhaseClosed [of s d c now "name" "file"]
      castVote_PhaseClosed [of s d c now voterId b]
      adminDeleteEntry_contests [of hashPin s pin eid d]
      adminUpdate_keeps_phase [of s hashPin pin sd vd d]
    by simp
qed

theorem public_reads_resolve_phase_first_witness:
  "findContest ''bake-off'' bake_db = Some bake_off \<and> newPhase 25 bake_off = Results
   \<and> resolves_first ''bake-off'' 25 (getContest 25 ''bake-off'') bake_db
   \<and> resolves_first ''bake-off'' 25
        (castVote 25 ''bake-off'' ''v1'' [\<lparr>entryId = 1, rank = 1\<rparr>]) bake_db
   \<and> map_sum id i_current_phase (fst (getContest 25 ''bake-off'' bake_db)) = Inr Results
   \<and> fst (castVote 25 ''bake-off'' ''v1'' [\<lparr>entryId = 1, rank = 1\<rparr>] bake_db) = Inl PhaseClosed"
proof -
  have h: "findContest ''bake-off'' bake_db = Some bake_off"
    by (simp add: findContest_def example_defs)
  have n: "newPhase 25 bake_off = Results"
    by (simp add: newPhase_def example_defs)
  show ?thesis
    using h n
      public_reads_resolve_phase_first [of "''bake-off''" 25 bake_db "id :: nat \<Rightarrow> nat"
        None None "''v1''" "[\<lparr>entryId = 1, rank = 1\<rparr>]" bake_off id "''1234''" 1 None None]
    by simp
qed

text \<open>
  C3 as stated fails for the admin operations, which read the contest row with a plain
  \<open>SELECT\<close>. In \<open>bake_db\<close> the stored phase is submission and both deadlines are over
  at the instant 25: a read by getContest resolves and reports results, while the
  admin update (with no field to change) reports the contest in phase submission and
  leaves submission in the database, and the admin listing leaves it there too.
\<close>

theorem admin_reads_stored_phase_counterexample:
  "adminUpdate id ''bake-off'' ''1234'' None None None bake_db =
     (Inr (withoutPinHash bake_off None), bake_db)
   \<and> i_current_phase (withoutPinHash bake_off None) = Submission
   \<and> storedPhase ''bake-off'' bake_db = Some Submission
   \<and> newPhase 25 bake_off = Results
   \<and> map_sum id i_current_phase (fst (getContest 25 ''bake-off'' bake_db)) = Inr Results
   \<and> \<not> resolves_first ''bake-off'' 25 (adminUpdate id ''bake-off'' ''1234'' None None None)
         bake_db
   \<and> adminEntries id ''bake-off'' ''1234'' bake_db = (Inr [entryA, entryB, entryC], bake_db)
   \<and> \<not> resolves_first ''bake-off'' 25 (adminEntries id ''bake-off'' ''1234'') bake_db"
proof -
  have h: "findContest ''bake-off'' bake_db = Some bake_off"
    by (simp add: findContest_def example_defs)
  have n: "newPhase 25 bake_off = Results"
    by (simp add: newPhase_def example_defs)
  have p: "admin_pin_hash bake_off = ''1234''" "current_phase bake_off = Submission"
    by (simp_all add: bake_off_def)
  have f: "find (\<lambda>c. c_id c = c_id bake_off) (contests bake_db) = Some bake_off"
    by (simp add: bake_db_def)
  have u: "adminUpdate id ''bake-off'' ''1234'' None None None bake_db =
             (Inr (withoutPinHash bake_off None), bake_db)"
    by (simp add: adminUpdate_def h p f)
  have s: "storedPhase ''bake-off'' bake_db = Some Submission"
    by (simp add: storedPhase_def h p)
  have e: "selectEntries (c_id bake_off) bake_db = [entryA, entryB, entryC]"
    by (simp add: selectEntries_def example_defs)
  have a: "adminEntries id ''bake-off'' ''1234'' bake_db = (Inr [entryA, entryB, entryC], bake_db)"
    by (simp add: adminEntries_def h p e)
  show ?thesis
    using n s getContest_phase [OF h, of 25]
    by (simp add: u a resolves_first_def h withoutPinHash_def p)
qed

text \<open>
  C9. An admin update that carries both deadlines, with the new voting deadline at or
  before the new submission deadline, changes nothing in the database, whatever else
  the request carries; when the contest exists and the PIN is the admin's, the answer
  is \<open>InvalidDeadlineOrder\<close>. Neither a deadline nor the forced phase of the same request
  is applied.
\<close>

theorem adminUpdate_rejects_deadline_order:
  assumes "vd \<le> sd"
  shows "snd (adminUpdate hashPin s pin (Some sd) (Some vd) currentPhase d) = d
       \<and> (findContest s d = Some c \<and> hashPin pin = admin_pin_hash c
          \<longrightarrow> adminUpdate hashPin s pin (Some sd) (Some vd) currentPhase d =
                (Inl InvalidDeadlineOrder, d))"
  using assms by (simp add: adminUpdate_def split: option.split)

theorem adminUpdate_rejects_deadline_order_witness:
  "(30::int) \<le> 30 \<and> findContest ''bake-off'' bake_db = Some bake_off
   \<and> id ''1234'' = admin_pin_hash bake_off
   \<and> adminUpdate id ''bake-off'' ''1234'' (Some 30) (Some 30) (Some ''results'') bake_db =
       (Inl InvalidDeadlineOrder, bake_db)"
proof -
  have l: "(30::int) \<le> 30" by simp
  have h: "findContest ''bake-off'' bake_db = Some bake_off"
    by (simp add: findContest_def example_defs)
  have p: "id ''1234'' = admin_pin_hash bake_off"
    by (simp add: bake_off_def)
  show ?thesis
    using l h p
      adminUpdate_rejects_deadline_order [OF l, of id "''bake-off''" "''1234''"
        "Some ''results''" bake_db bake_off]
    by blast
qed

end
